theory Spec2Isabelle
  imports Main "HOL-Library.Word" "HOL-Library.Multiset" "HOL-Library.Signed_Division"
begin

unbundle bit_operations_syntax

section \<open>The operating system as the rebalancer sees it\<close>

text \<open>
  The rebalancer (\<^verbatim>\<open>pkg/rebalance/rebalance.go\<close>, \<^verbatim>\<open>internal/fileutil\<close>,
  \<^verbatim>\<open>internal/database\<close>) talks to the file system through \<^verbatim>\<open>os.Stat\<close>,
  \<^verbatim>\<open>os.Lstat\<close>, \<^verbatim>\<open>os.Open\<close>, \<^verbatim>\<open>os.OpenFile\<close>, \<^verbatim>\<open>io.Copy\<close>,
  \<^verbatim>\<open>os.Chtimes\<close>, \<^verbatim>\<open>os.Chmod\<close>, \<^verbatim>\<open>os.Remove\<close> and \<^verbatim>\<open>os.Rename\<close>.
  These are not code of the repository; they are modelled here as POSIX gives them.

  A directory entry (a path) names an inode; several paths may name the same inode
  (hard links), so writing through one path is seen through the other. Symbolic links
  are not modelled (hence \<^verbatim>\<open>Lstat\<close> and \<^verbatim>\<open>Stat\<close> agree), and the name space is flat:
  a directory is a leaf with a kind of its own.
\<close>

datatype ftype = Regular | Directory | Irregular

record inode =
  kind :: ftype
  perm :: "32 word"
  mtime :: int
  nlink :: nat
  content :: string

record fs =
  names :: "string \<Rightarrow> nat option"
  inodes :: "nat \<Rightarrow> inode"
  next_ino :: nat

text \<open>What \<^verbatim>\<open>os.IsNotExist\<close> tells apart: the entry is missing, or anything else.\<close>

datatype oserr = NotExist | OtherErr

definition IsNotExist :: "oserr \<Rightarrow> bool" where
  "IsNotExist err = (err = NotExist)"

text \<open>\<^verbatim>\<open>os.FileInfo\<close>: \<^verbatim>\<open>Mode()\<close> is the kind with the permission bits.\<close>

record fileinfo =
  fi_kind :: ftype
  fi_perm :: "32 word"
  fi_mtime :: int
  fi_size :: nat
  fi_nlink :: nat

definition info_of :: "inode \<Rightarrow> fileinfo" where
  "info_of n = \<lparr>fi_kind = kind n, fi_perm = perm n, fi_mtime = mtime n,
                fi_size = length (content n), fi_nlink = nlink n\<rparr>"

definition Mode :: "fileinfo \<Rightarrow> ftype \<times> 32 word" where
  "Mode i = (fi_kind i, fi_perm i)"

definition IsRegular :: "ftype \<times> 32 word \<Rightarrow> bool" where
  "IsRegular m = (fst m = Regular)"

definition os_Stat :: "string \<Rightarrow> fs \<Rightarrow> (oserr + fileinfo) \<times> fs" where
  "os_Stat p f = (case names f p of
                    None \<Rightarrow> (Inl NotExist, f)
                  | Some i \<Rightarrow> (Inr (info_of (inodes f i)), f))"

definition os_Lstat :: "string \<Rightarrow> fs \<Rightarrow> (oserr + fileinfo) \<times> fs" where
  "os_Lstat p f = (case names f p of
                     None \<Rightarrow> (Inl NotExist, f)
                   | Some i \<Rightarrow> (Inr (info_of (inodes f i)), f))"

text \<open>Dropping one directory entry of an inode.\<close>

definition drop_link :: "nat \<Rightarrow> fs \<Rightarrow> fs" where
  "drop_link i f = f\<lparr>inodes := (inodes f)(i := (inodes f i)\<lparr>nlink := nlink (inodes f i) - 1\<rparr>)\<rparr>"

definition os_Remove :: "string \<Rightarrow> fs \<Rightarrow> (oserr + unit) \<times> fs" where
  "os_Remove p f = (case names f p of
                      None \<Rightarrow> (Inl NotExist, f)
                    | Some i \<Rightarrow> (Inr (), (drop_link i f)\<lparr>names := (names f)(p := None)\<rparr>))"

text \<open>
  \<^verbatim>\<open>rename(2)\<close>: a missing source is an error; a target that is a directory refuses a
  file; two entries of the same inode are left alone; otherwise the target entry is
  replaced and the source entry disappears.
\<close>

definition os_Rename :: "string \<Rightarrow> string \<Rightarrow> fs \<Rightarrow> (oserr + unit) \<times> fs" where
  "os_Rename src dst f =
     (case names f src of
        None \<Rightarrow> (Inl NotExist, f)
      | Some i \<Rightarrow>
          (case names f dst of
             None \<Rightarrow> (Inr (), f\<lparr>names := (names f)(dst := Some i, src := None)\<rparr>)
           | Some j \<Rightarrow>
               if j = i then (Inr (), f)
               else if kind (inodes f j) = Directory then (Inl OtherErr, f)
               else (Inr (), (drop_link j f)\<lparr>names := (names f)(dst := Some i, src := None)\<rparr>)))"

definition os_Chmod :: "string \<Rightarrow> 32 word \<Rightarrow> fs \<Rightarrow> (oserr + unit) \<times> fs" where
  "os_Chmod p m f = (case names f p of
                       None \<Rightarrow> (Inl NotExist, f)
                     | Some i \<Rightarrow> (Inr (), f\<lparr>inodes := (inodes f)(i := (inodes f i)\<lparr>perm := m\<rparr>)\<rparr>))"

definition os_Chtimes :: "string \<Rightarrow> int \<Rightarrow> fs \<Rightarrow> (oserr + unit) \<times> fs" where
  "os_Chtimes p t f = (case names f p of
                         None \<Rightarrow> (Inl NotExist, f)
                       | Some i \<Rightarrow> (Inr (), f\<lparr>inodes := (inodes f)(i := (inodes f i)\<lparr>mtime := t\<rparr>)\<rparr>))"

text \<open>An open file is its inode: it stays readable when its entry is removed.\<close>

definition os_Open :: "string \<Rightarrow> fs \<Rightarrow> (oserr + nat) \<times> fs" where
  "os_Open p f = (case names f p of None \<Rightarrow> (Inl NotExist, f) | Some i \<Rightarrow> (Inr i, f))"

definition file_Stat :: "nat \<Rightarrow> fs \<Rightarrow> (oserr + fileinfo) \<times> fs" where
  "file_Stat h f = (Inr (info_of (inodes f h)), f)"

text \<open>
  \<^verbatim>\<open>os.OpenFile(dst, O_CREATE|O_WRONLY|O_TRUNC, mode)\<close>: a missing entry gets a new
  inode whose permission bits are \<open>mode\<close> less the process's umask; an existing regular
  file is opened and cut to length 0, whatever other entries name it; anything else at
  that path makes the open fail.
\<close>

definition os_OpenFile_trunc :: "32 word \<Rightarrow> int \<Rightarrow> string \<Rightarrow> 32 word \<Rightarrow> fs \<Rightarrow> (oserr + nat) \<times> fs" where
  "os_OpenFile_trunc um t p m f =
     (case names f p of
        None \<Rightarrow>
          (Inr (next_ino f),
           f\<lparr>names := (names f)(p := Some (next_ino f)),
             inodes := (inodes f)(next_ino f :=
                \<lparr>kind = Regular, perm = m AND NOT um, mtime = t, nlink = 1, content = []\<rparr>),
             next_ino := Suc (next_ino f)\<rparr>)
      | Some j \<Rightarrow>
          if kind (inodes f j) = Regular
          then (Inr j, f\<lparr>inodes := (inodes f)(j := (inodes f j)\<lparr>mtime := t, content := []\<rparr>)\<rparr>)
          else (Inl OtherErr, f))"

definition file_read :: "nat \<Rightarrow> fs \<Rightarrow> (oserr + string) \<times> fs" where
  "file_read h f = (if kind (inodes f h) = Directory then (Inl OtherErr, f)
                    else (Inr (content (inodes f h)), f))"

definition file_write :: "nat \<Rightarrow> int \<Rightarrow> string \<Rightarrow> fs \<Rightarrow> fs" where
  "file_write h t bs f = f\<lparr>inodes := (inodes f)(h := (inodes f h)\<lparr>mtime := t, content := bs\<rparr>)\<rparr>"

subsection \<open>What the environment may do to a call\<close>

text \<open>
  A system call can fail for reasons outside the program (permissions, a read-only or
  full device, an I/O error), and another process can touch the tree between two calls.
  Both are inputs of the model: for every call site and path, \<open>fault\<close> says whether the
  call fails with an error that is not "does not exist", and \<open>disturb\<close> says what
  happens to the tree just before the call.
\<close>

datatype site =
    AtLstat | AtStat | AtCopyOpen | AtCopyStat | AtCopyCreate | AtCopyIo | AtCopyChtimes
  | AtHashOpen | AtHashRead | AtRemoveTmp | AtRemoveOrig | AtRename | AtRenameRecovered
  | AtRestat | AtChmod | AtChtimes | AtDbGet | AtDbSet | AtCleanupRemove

datatype interference = Quiet | Vanish string | Tamper string string

fun interfere :: "interference \<Rightarrow> fs \<Rightarrow> fs" where
  "interfere Quiet f = f"
| "interfere (Vanish q) f = snd (os_Remove q f)"
| "interfere (Tamper q bs) f =
     (case names f q of
        None \<Rightarrow> f
      | Some i \<Rightarrow> f\<lparr>inodes := (inodes f)(i := (inodes f i)\<lparr>content := bs\<rparr>)\<rparr>)"

datatype platform = Unix | Windows

text \<open>
  The parameters of one run that the repository's code takes from outside: the faults
  and interference above, how many bytes \<^verbatim>\<open>io.Copy\<close> wrote before a failure, the
  umask, the clock, the digest functions of \<^verbatim>\<open>crypto/sha256\<close> and \<^verbatim>\<open>crypto/md5\<close>
  (as hexadecimal strings), the platform, \<^verbatim>\<open>runtime.NumCPU()\<close>, what
  \<^verbatim>\<open>filepath.Walk\<close> visits under a root (each entry with its \<^verbatim>\<open>FileInfo\<close> or the
  error of reaching it), and the permutation \<^verbatim>\<open>rand.Shuffle\<close> picks.
\<close>

record env =
  fault :: "site \<Rightarrow> string \<Rightarrow> bool"
  disturb :: "site \<Rightarrow> string \<Rightarrow> interference"
  partial :: "string \<Rightarrow> nat"
  umask :: "32 word"
  now :: int
  sha256 :: "string \<Rightarrow> string"
  md5 :: "string \<Rightarrow> string"
  goos :: platform
  numCPU :: int
  walk :: "fs \<Rightarrow> string \<Rightarrow> (string \<times> (oserr + fileinfo)) list"
  shuffle :: "string list \<Rightarrow> string list"

definition sys :: "env \<Rightarrow> site \<Rightarrow> string \<Rightarrow> (fs \<Rightarrow> (oserr + 'a) \<times> fs) \<Rightarrow> fs \<Rightarrow> (oserr + 'a) \<times> fs" where
  "sys e s p call f =
     (let f1 = interfere (disturb e s p) f
      in if fault e s p then (Inl OtherErr, f1) else call f1)"


section \<open>Configuration, state and outcomes\<close>

text \<open>\<^verbatim>\<open>rebalance.Config\<close>, without the logger (what is logged is part of the state below).\<close>

record Config =
  SkipHardlinks :: bool
  PassesLimit :: int
  Concurrency :: int
  RootPath :: string
  CleanupBalanceFiles :: bool
  RandomOrder :: bool
  SizeThresholdMB :: int
  ChecksumType :: string
  HaltOnFileMissing :: bool
  ShowFullPaths :: bool

text \<open>
  The reasons \<^verbatim>\<open>CompareFileChecksum\<close> gives, and the errors \<^verbatim>\<open>RebalanceFile\<close> and
  \<^verbatim>\<open>Run\<close> return, one constructor per \<^verbatim>\<open>fmt.Errorf\<close> of the source.
\<close>

datatype reason =
    ErrorHashingOriginal oserr
  | ErrorHashingCopy oserr
  | DigestMismatch string string
  | NoReason

datatype linkerr = LstatFailed oserr | UnsupportedSystem

datatype error =
    HardlinkCheckFailed string linkerr
  | DbReadError
  | FailedToStat string oserr
  | CopyFailed oserr
  | ChecksumMismatch string string reason
  | RemoveFailed oserr
  | CriticalRenameFailed string oserr
  | FileDisappearedAfterRename
  | StatAfterRenameFailed oserr
  | FixPermissionsFailed oserr
  | FixTimestampsFailed oserr
  | DbUpdateError
  | CleanupFailed
  | GatherFailed
  | SomeFilesFailed

text \<open>What the code writes to its logger, one constructor per message.\<close>

datatype event =
    SkippingTemporary string
  | FileNoLongerOnDisk string
  | HaltOnMissing
  | SkippingHardlinked string
  | PassCountReached int string
  | SkippingNonRegular string
  | CopyingTo string string
  | ShutdownSkipping string
  | ChecksumMismatchFor string
  | RemovingOriginal string
  | OriginalNoLongerOnDisk string
  | RenamingTemp string
  | DisappearedAfterRename string
  | PermissionMismatch
  | FixedPermissions string
  | FixedTimestamps string
  | SuccessfullyRebalanced string bool
  | InitiatingShutdown
  | CleaningUp
  | FileCount nat
  | NoFilesToProcess
  | Randomizing
  | StartingWorkers int
  | ProcessingFile string
  | FailedToRebalance string error
  | FinalCleanup
  | AllFilesProcessed
  | ScanningDirectory string
  | CannotAccessPath string
  | FoundBalanceFiles nat
  | RemovingStale string
  | FailedToRemove string

text \<open>A Go channel that is only ever closed: \<^verbatim>\<open>shutdownChan\<close>.\<close>

datatype chan = Open | Closed

datatype panic = CloseOfClosedChannel

text \<open>
  The state a \<^verbatim>\<open>Rebalancer\<close> works on: the tree, the ledger table \<^verbatim>\<open>rebalances\<close> of
  the SQLite database (path to count), the shutdown channel, and the log so far.
\<close>

record world =
  files :: fs
  db :: "string \<Rightarrow> int option"
  shutdownChan :: chan
  logged :: "event list"

definition logf :: "event \<Rightarrow> world \<Rightarrow> world" where
  "logf ev w = w\<lparr>logged := logged w @ [ev]\<rparr>"

definition wsys :: "env \<Rightarrow> site \<Rightarrow> string \<Rightarrow> (fs \<Rightarrow> (oserr + 'a) \<times> fs) \<Rightarrow> world \<Rightarrow> (oserr + 'a) \<times> world" where
  "wsys e s p call w = (case sys e s p call (files w) of (r, f) \<Rightarrow> (r, w\<lparr>files := f\<rparr>))"

subsection \<open>The ledger (\<^verbatim>\<open>internal/database\<close>)\<close>

text \<open>
  \<^verbatim>\<open>GetRebalanceCount\<close> gives 0 for a path with no row; \<^verbatim>\<open>SetRebalanceCount\<close>
  inserts or overwrites the row. Either statement can fail.
\<close>

definition GetRebalanceCount :: "env \<Rightarrow> world \<Rightarrow> string \<Rightarrow> unit + int" where
  "GetRebalanceCount e w p =
     (if fault e AtDbGet p then Inl ()
      else (case db w p of None \<Rightarrow> Inr 0 | Some c \<Rightarrow> Inr c))"

definition SetRebalanceCount :: "env \<Rightarrow> world \<Rightarrow> string \<Rightarrow> int \<Rightarrow> unit + world" where
  "SetRebalanceCount e w p newCount =
     (if fault e AtDbSet p then Inl ()
      else Inr (w\<lparr>db := (db w)(p := Some newCount)\<rparr>))"

text \<open>Go's \<^verbatim>\<open>int\<close> on a 64-bit platform: arithmetic wraps.\<close>

definition int64 :: "int \<Rightarrow> int" where
  "int64 x = (x + 2 ^ 63) mod 2 ^ 64 - 2 ^ 63"

subsection \<open>Shutdown\<close>

text \<open>
  \<^verbatim>\<open>InitiateShutdown\<close> logs and closes \<^verbatim>\<open>shutdownChan\<close>. Go panics on closing a
  closed channel. \<^verbatim>\<open>isShuttingDown\<close> is a non-blocking receive: true once closed.
\<close>

definition InitiateShutdown :: "world \<Rightarrow> panic + world" where
  "InitiateShutdown w =
     (let w1 = logf InitiatingShutdown w
      in case shutdownChan w1 of
           Closed \<Rightarrow> Inl CloseOfClosedChannel
         | Open \<Rightarrow> Inr (w1\<lparr>shutdownChan := Closed\<rparr>))"

definition isShuttingDown :: "world \<Rightarrow> bool" where
  "isShuttingDown w = (shutdownChan w = Closed)"

section \<open>\<^verbatim>\<open>internal/fileutil\<close>\<close>

text \<open>
  \<^verbatim>\<open>getLinkCountForPlatform\<close>: the link count of the \<^verbatim>\<open>Stat_t\<close> on Unix (a
  \<^verbatim>\<open>FileInfo\<close> of \<^verbatim>\<open>os.Lstat\<close> always carries one there), always 1 on Windows.
\<close>

definition getLinkCountForPlatform :: "platform \<Rightarrow> fileinfo \<Rightarrow> unit + nat" where
  "getLinkCountForPlatform pf info = (case pf of Unix \<Rightarrow> Inr (fi_nlink info) | Windows \<Rightarrow> Inr 1)"

definition GetLinkCount :: "env \<Rightarrow> string \<Rightarrow> world \<Rightarrow> (linkerr + nat) \<times> world" where
  "GetLinkCount e path w =
     (case wsys e AtLstat path (os_Lstat path) w of
        (Inl err, w1) \<Rightarrow> (Inl (LstatFailed err), w1)
      | (Inr info, w1) \<Rightarrow>
          (case getLinkCountForPlatform (goos e) info of
             Inl _ \<Rightarrow> (Inl UnsupportedSystem, w1)
           | Inr n \<Rightarrow> (Inr n, w1)))"

text \<open>
  \<^verbatim>\<open>io.Copy(d, s)\<close>: everything readable from the open source is written to the open
  target; a failure leaves the bytes written so far.
\<close>

definition io_Copy :: "env \<Rightarrow> string \<Rightarrow> nat \<Rightarrow> nat \<Rightarrow> world \<Rightarrow> (oserr + unit) \<times> world" where
  "io_Copy e src d s w =
     (case file_read s (interfere (disturb e AtCopyIo src) (files w)) of
        (Inl err, f1) \<Rightarrow> (Inl err, w\<lparr>files := f1\<rparr>)
      | (Inr data, f1) \<Rightarrow>
          if fault e AtCopyIo src
          then (Inl OtherErr, w\<lparr>files := file_write d (now e) (take (partial e src) data) f1\<rparr>)
          else (Inr (), w\<lparr>files := file_write d (now e) data f1\<rparr>))"

text \<open>
  \<^verbatim>\<open>CopyFile(src, dst)\<close>: open the source, stat it, open the target (created with the
  source's mode, or truncated), copy, then set the target's modification time.
\<close>

definition CopyFile :: "env \<Rightarrow> string \<Rightarrow> string \<Rightarrow> world \<Rightarrow> (oserr + unit) \<times> world" where
  "CopyFile e src dst w =
     (case wsys e AtCopyOpen src (os_Open src) w of
        (Inl err, w1) \<Rightarrow> (Inl err, w1)
      | (Inr s, w1) \<Rightarrow>
     (case wsys e AtCopyStat src (file_Stat s) w1 of
        (Inl err, w2) \<Rightarrow> (Inl err, w2)
      | (Inr statSrc, w2) \<Rightarrow>
     (case wsys e AtCopyCreate dst (os_OpenFile_trunc (umask e) (now e) dst (fi_perm statSrc)) w2 of
        (Inl err, w3) \<Rightarrow> (Inl err, w3)
      | (Inr d, w3) \<Rightarrow>
     (case io_Copy e src d s w3 of
        (Inl err, w4) \<Rightarrow> (Inl err, w4)
      | (Inr u, w4) \<Rightarrow> wsys e AtCopyChtimes dst (os_Chtimes dst (fi_mtime statSrc)) w4))))"

text \<open>\<^verbatim>\<open>FileHashMD5\<close> and \<^verbatim>\<open>FileHashSHA256\<close>: open, read all, digest.\<close>

definition hash_file :: "(string \<Rightarrow> string) \<Rightarrow> env \<Rightarrow> string \<Rightarrow> world \<Rightarrow> (oserr + string) \<times> world" where
  "hash_file h e path w =
     (case wsys e AtHashOpen path (os_Open path) w of
        (Inl err, w1) \<Rightarrow> (Inl err, w1)
      | (Inr fd, w1) \<Rightarrow>
          (case wsys e AtHashRead path (file_read fd) w1 of
             (Inl err, w2) \<Rightarrow> (Inl err, w2)
           | (Inr data, w2) \<Rightarrow> (Inr (h data), w2)))"

definition FileHashMD5 :: "env \<Rightarrow> string \<Rightarrow> world \<Rightarrow> (oserr + string) \<times> world" where
  "FileHashMD5 e = hash_file (md5 e) e"

definition FileHashSHA256 :: "env \<Rightarrow> string \<Rightarrow> world \<Rightarrow> (oserr + string) \<times> world" where
  "FileHashSHA256 e = hash_file (sha256 e) e"

text \<open>\<^verbatim>\<open>CompareFileMD5\<close> and \<^verbatim>\<open>CompareFileSHA256\<close> differ in the hash only.\<close>

definition compare_hashes ::
  "(string \<Rightarrow> world \<Rightarrow> (oserr + string) \<times> world) \<Rightarrow> string \<Rightarrow> string \<Rightarrow> world \<Rightarrow> (bool \<times> reason) \<times> world" where
  "compare_hashes hashf orig copy w =
     (case hashf orig w of
        (Inl err, w1) \<Rightarrow> ((False, ErrorHashingOriginal err), w1)
      | (Inr origHash, w1) \<Rightarrow>
          (case hashf copy w1 of
             (Inl err, w2) \<Rightarrow> ((False, ErrorHashingCopy err), w2)
           | (Inr copyHash, w2) \<Rightarrow>
               if origHash \<noteq> copyHash then ((False, DigestMismatch origHash copyHash), w2)
               else ((True, NoReason), w2)))"

definition CompareFileMD5 :: "env \<Rightarrow> string \<Rightarrow> string \<Rightarrow> world \<Rightarrow> (bool \<times> reason) \<times> world" where
  "CompareFileMD5 e = compare_hashes (FileHashMD5 e)"

definition CompareFileSHA256 :: "env \<Rightarrow> string \<Rightarrow> string \<Rightarrow> world \<Rightarrow> (bool \<times> reason) \<times> world" where
  "CompareFileSHA256 e = compare_hashes (FileHashSHA256 e)"

definition CompareFileChecksum :: "env \<Rightarrow> string \<Rightarrow> string \<Rightarrow> string \<Rightarrow> world \<Rightarrow> (bool \<times> reason) \<times> world" where
  "CompareFileChecksum e orig copy checksumType w =
     (if checksumType = ''md5'' then CompareFileMD5 e orig copy w
      else if checksumType = ''sha256'' then CompareFileSHA256 e orig copy w
      else CompareFileSHA256 e orig copy w)"

definition HasSuffix :: "string \<Rightarrow> string \<Rightarrow> bool" where
  "HasSuffix s suf = (length suf \<le> length s \<and> drop (length s - length suf) s = suf)"

section \<open>\<^verbatim>\<open>RebalanceFile\<close>\<close>

text \<open>
  \<^verbatim>\<open>RebalanceFile\<close> is one straight-line function with early returns. It is written
  here as a chain of definitions, last step first, each the rest of the function from
  one point on; the line numbers are those of \<^verbatim>\<open>pkg/rebalance/rebalance.go\<close>. A call
  ends in a panic, or returns an error (\<open>Some\<close>) or \<^verbatim>\<open>nil\<close> (\<open>None\<close>) with the new state.
  The copy speed (elapsed time, floating point) only appears in the log text and is
  left out; the size threshold is compared in bytes.
\<close>

type_synonym outcome = "panic + (error option \<times> world)"

text \<open>
  The block that stands three times in the function (lines 66-72, 96-102, 162-168): warn
  that the file is gone, shut down if \<^verbatim>\<open>HaltOnFileMissing\<close>, return \<^verbatim>\<open>nil\<close>.
\<close>

definition file_gone :: "Config \<Rightarrow> event \<Rightarrow> world \<Rightarrow> outcome" where
  "file_gone c ev w =
     (if HaltOnFileMissing c
      then (case InitiateShutdown (logf HaltOnMissing (logf ev w)) of
              Inl pn \<Rightarrow> Inl pn
            | Inr w1 \<Rightarrow> Inr (None, w1))
      else Inr (None, logf ev w))"

text \<open>Lines 218-236: the ledger update and the success message.\<close>

definition rebalance_ledger :: "Config \<Rightarrow> env \<Rightarrow> string \<Rightarrow> int \<Rightarrow> nat \<Rightarrow> world \<Rightarrow> outcome" where
  "rebalance_ledger c e filePath oldCount fileSize w =
     (if PassesLimit c > 0
      then (case SetRebalanceCount e w filePath (int64 (oldCount + 1)) of
              Inl err \<Rightarrow> Inr (Some DbUpdateError, w)
            | Inr w1 \<Rightarrow>
                Inr (None, logf (SuccessfullyRebalanced filePath
                       (SizeThresholdMB c > 0 \<and> int fileSize < SizeThresholdMB c * 1048576)) w1))
      else Inr (None, logf (SuccessfullyRebalanced filePath
                  (SizeThresholdMB c > 0 \<and> int fileSize < SizeThresholdMB c * 1048576)) w))"

text \<open>Lines 208-216: the modification time is put back if it differs.\<close>

definition rebalance_times :: "Config \<Rightarrow> env \<Rightarrow> string \<Rightarrow> int \<Rightarrow> fileinfo \<Rightarrow> int \<Rightarrow> nat \<Rightarrow> world \<Rightarrow> outcome" where
  "rebalance_times c e filePath originalTime newInfo oldCount fileSize w =
     (if fi_mtime newInfo \<noteq> originalTime
      then (case wsys e AtChtimes filePath (os_Chtimes filePath originalTime) w of
              (Inl err, w1) \<Rightarrow> Inr (Some (FixTimestampsFailed err), w1)
            | (Inr u, w1) \<Rightarrow>
                rebalance_ledger c e filePath oldCount fileSize (logf (FixedTimestamps filePath) w1))
      else rebalance_ledger c e filePath oldCount fileSize w)"

text \<open>Lines 185-206: stat the renamed file and put the mode back if it differs.\<close>

definition rebalance_metadata ::
  "Config \<Rightarrow> env \<Rightarrow> string \<Rightarrow> ftype \<times> 32 word \<Rightarrow> int \<Rightarrow> int \<Rightarrow> nat \<Rightarrow> world \<Rightarrow> outcome" where
  "rebalance_metadata c e filePath originalMode originalTime oldCount fileSize w =
     (case wsys e AtRestat filePath (os_Stat filePath) w of
        (Inl err, w1) \<Rightarrow>
          if IsNotExist err
          then Inr (Some FileDisappearedAfterRename, logf (DisappearedAfterRename filePath) w1)
          else Inr (Some (StatAfterRenameFailed err), w1)
      | (Inr newInfo, w1) \<Rightarrow>
          if Mode newInfo \<noteq> originalMode
          then (case wsys e AtChmod filePath (os_Chmod filePath (snd originalMode))
                       (logf PermissionMismatch w1) of
                  (Inl err, w2) \<Rightarrow> Inr (Some (FixPermissionsFailed err), w2)
                | (Inr u, w2) \<Rightarrow>
                    rebalance_times c e filePath originalTime newInfo oldCount fileSize
                      (logf (FixedPermissions filePath) w2))
          else rebalance_times c e filePath originalTime newInfo oldCount fileSize w1)"

text \<open>
  Lines 174-183: the temporary copy takes the original's name. If that fails the copy
  is renamed to \<^verbatim>\<open>filePath + ".recovered"\<close>; the result of that second rename is not
  looked at.
\<close>

definition rebalance_rename ::
  "Config \<Rightarrow> env \<Rightarrow> string \<Rightarrow> ftype \<times> 32 word \<Rightarrow> int \<Rightarrow> int \<Rightarrow> nat \<Rightarrow> world \<Rightarrow> outcome" where
  "rebalance_rename c e filePath originalMode originalTime oldCount fileSize w =
     (case wsys e AtRename (filePath @ ''.balance'')
             (os_Rename (filePath @ ''.balance'') filePath) (logf (RenamingTemp filePath) w) of
        (Inl err, w1) \<Rightarrow>
          (case wsys e AtRenameRecovered (filePath @ ''.balance'')
                  (os_Rename (filePath @ ''.balance'') (filePath @ ''.recovered'')) w1 of
             (r, w2) \<Rightarrow> Inr (Some (CriticalRenameFailed (filePath @ ''.recovered'') err), w2))
      | (Inr u, w1) \<Rightarrow>
          rebalance_metadata c e filePath originalMode originalTime oldCount fileSize w1)"

text \<open>
  Lines 155-172: the original is removed. On failure the temporary copy is removed (the
  result is not looked at), and a vanished original is not an error.
\<close>

definition rebalance_remove ::
  "Config \<Rightarrow> env \<Rightarrow> string \<Rightarrow> ftype \<times> 32 word \<Rightarrow> int \<Rightarrow> int \<Rightarrow> nat \<Rightarrow> world \<Rightarrow> outcome" where
  "rebalance_remove c e filePath originalMode originalTime oldCount fileSize w =
     (case wsys e AtRemoveOrig filePath (os_Remove filePath) (logf (RemovingOriginal filePath) w) of
        (Inl err, w1) \<Rightarrow>
          (case wsys e AtRemoveTmp (filePath @ ''.balance'') (os_Remove (filePath @ ''.balance'')) w1 of
             (r, w2) \<Rightarrow>
               if IsNotExist err then file_gone c (OriginalNoLongerOnDisk filePath) w2
               else Inr (Some (RemoveFailed err), w2))
      | (Inr u, w1) \<Rightarrow>
          rebalance_rename c e filePath originalMode originalTime oldCount fileSize w1)"

text \<open>
  Lines 141-153: the digests of the original and the copy are compared; an empty
  checksum type means SHA256. On a mismatch the temporary copy is removed (the result
  is not looked at).
\<close>

definition rebalance_verify ::
  "Config \<Rightarrow> env \<Rightarrow> string \<Rightarrow> ftype \<times> 32 word \<Rightarrow> int \<Rightarrow> int \<Rightarrow> nat \<Rightarrow> world \<Rightarrow> outcome" where
  "rebalance_verify c e filePath originalMode originalTime oldCount fileSize w =
     (case CompareFileChecksum e filePath (filePath @ ''.balance'')
             (if ChecksumType c = [] then ''sha256'' else ChecksumType c) w of
        ((ok, why), w1) \<Rightarrow>
          if \<not> ok
          then (case wsys e AtRemoveTmp (filePath @ ''.balance'') (os_Remove (filePath @ ''.balance'')) w1 of
                  (r, w2) \<Rightarrow>
                    Inr (Some (ChecksumMismatch
                                 (if ChecksumType c = [] then ''sha256'' else ChecksumType c)
                                 filePath why),
                         logf (ChecksumMismatchFor filePath) w2))
          else rebalance_remove c e filePath originalMode originalTime oldCount fileSize w1)"

text \<open>
  Lines 129-139: the copy to \<^verbatim>\<open>filePath + ".balance"\<close>. From here on the function
  no longer reads the shutdown channel.
\<close>

definition rebalance_copy :: "Config \<Rightarrow> env \<Rightarrow> string \<Rightarrow> fileinfo \<Rightarrow> int \<Rightarrow> world \<Rightarrow> outcome" where
  "rebalance_copy c e filePath srcInfo oldCount w =
     (case CopyFile e filePath (filePath @ ''.balance'') w of
        (Inl err, w1) \<Rightarrow> Inr (Some (CopyFailed err), w1)
      | (Inr u, w1) \<Rightarrow>
          rebalance_verify c e filePath (Mode srcInfo) (fi_mtime srcInfo) oldCount
            (fi_size srcInfo) w1)"

text \<open>
  Lines 93-127: stat; a missing file and a non-regular file are not errors; then the
  shutdown check "before starting a long operation".
\<close>

definition rebalance_stat :: "Config \<Rightarrow> env \<Rightarrow> string \<Rightarrow> int \<Rightarrow> world \<Rightarrow> outcome" where
  "rebalance_stat c e filePath oldCount w =
     (case wsys e AtStat filePath (os_Stat filePath) w of
        (Inl err, w1) \<Rightarrow>
          if IsNotExist err then file_gone c (FileNoLongerOnDisk filePath) w1
          else Inr (Some (FailedToStat filePath err), w1)
      | (Inr srcInfo, w1) \<Rightarrow>
          if \<not> IsRegular (Mode srcInfo)
          then Inr (None, logf (SkippingNonRegular filePath) w1)
          else if isShuttingDown (logf (CopyingTo filePath (filePath @ ''.balance'')) w1)
          then Inr (None, logf (ShutdownSkipping filePath)
                            (logf (CopyingTo filePath (filePath @ ''.balance'')) w1))
          else rebalance_copy c e filePath srcInfo oldCount
                 (logf (CopyingTo filePath (filePath @ ''.balance'')) w1))"

text \<open>Lines 82-91: the ledger is read and the pass limit checked.\<close>

definition rebalance_passes :: "Config \<Rightarrow> env \<Rightarrow> string \<Rightarrow> world \<Rightarrow> outcome" where
  "rebalance_passes c e filePath w =
     (case GetRebalanceCount e w filePath of
        Inl err \<Rightarrow> Inr (Some DbReadError, w)
      | Inr oldCount \<Rightarrow>
          if PassesLimit c > 0 \<and> oldCount \<ge> PassesLimit c
          then Inr (None, logf (PassCountReached (PassesLimit c) filePath) w)
          else rebalance_stat c e filePath oldCount w)"

text \<open>Lines 54-80: the temporary suffix and the hard-link check.\<close>

definition RebalanceFile :: "Config \<Rightarrow> env \<Rightarrow> string \<Rightarrow> world \<Rightarrow> outcome" where
  "RebalanceFile c e filePath w =
     (if HasSuffix filePath ''.balance''
      then Inr (None, logf (SkippingTemporary filePath) w)
      else if SkipHardlinks c
      then (case GetLinkCount e filePath w of
              (Inl err, w1) \<Rightarrow>
                if err = LstatFailed NotExist then file_gone c (FileNoLongerOnDisk filePath) w1
                else Inr (Some (HardlinkCheckFailed filePath err), w1)
            | (Inr linkCount, w1) \<Rightarrow>
                if linkCount > 1 then Inr (None, logf (SkippingHardlinked filePath) w1)
                else rebalance_passes c e filePath w1)
      else rebalance_passes c e filePath w)"

section \<open>\<^verbatim>\<open>Run\<close>\<close>







subsection \<open>The worker pool\<close>

text \<open>
  \<^verbatim>\<open>Run\<close> starts \<^verbatim>\<open>Concurrency\<close> goroutines that receive from \<^verbatim>\<open>fileChan\<close>, while the
  calling goroutine sends the files and closes the channel, and the signal handler of
  \<^verbatim>\<open>main.go\<close> may call \<^verbatim>\<open>InitiateShutdown\<close> at any time. Which goroutine moves next is
  not decided by the program: the model takes the order as a schedule, a list naming who
  moves, and walks through it. One move of a worker is one of: the receive of the
  \<^verbatim>\<open>range\<close> loop, the shutdown check of line 334, the body of the loop (lines 338-353).
  One move of the coordinator is one turn of its loop (lines 359-366), or the
  \<^verbatim>\<open>close(fileChan)\<close> after it. The call of \<^verbatim>\<open>RebalanceFile\<close> inside a worker's move
  is not interleaved with other moves; both channels have room for every file, so no
  send waits; the receiver of \<^verbatim>\<open>progressChan\<close> is taken to keep up.
\<close>

datatype worker = Idle | Got string | Running string | Exited


record pool =
  pw :: world
  todo :: "string list"
  fileChan :: "string list"
  fileChanClosed :: bool
  workers :: "worker list"
  resultChan :: "error option list"
  processedCount :: nat
  progress :: "nat list"


definition coordinator_step :: "pool \<Rightarrow> pool" where
  "coordinator_step st =
     (if fileChanClosed st then st
      else case todo st of
             [] \<Rightarrow> st\<lparr>fileChanClosed := True\<rparr>
           | f # rest \<Rightarrow>
               if isShuttingDown (pw st) then st\<lparr>todo := [], fileChanClosed := True\<rparr>
               else st\<lparr>todo := rest, fileChan := fileChan st @ [f]\<rparr>)"








section \<open>Concrete inputs\<close>

text \<open>
  A calm environment: no fault, no interference, no umask, eight CPUs, a Unix system.
  The digest functions are stood in for by the identity, which tells any two contents
  apart as SHA256 and MD5 are meant to. The walk visits the one file \<open>a\<close> when the tree
  has it.
\<close>

definition walk_a :: "fs \<Rightarrow> string \<Rightarrow> (string \<times> (oserr + fileinfo)) list" where
  "walk_a f root = (case names f ''a'' of
                      None \<Rightarrow> []
                    | Some i \<Rightarrow> [(''a'', Inr (info_of (inodes f i)))])"

definition calm :: env where
  "calm = \<lparr>fault = (\<lambda>s p. False), disturb = (\<lambda>s p. Quiet), partial = (\<lambda>p. 0), umask = 0,
            now = 100, sha256 = (\<lambda>bs. bs), md5 = (\<lambda>bs. bs), goos = Unix, numCPU = 8,
            walk = walk_a, shuffle = (\<lambda>xs. xs)\<rparr>"

definition file_AAAA :: inode where
  "file_AAAA = \<lparr>kind = Regular, perm = 420, mtime = 7, nlink = 1, content = ''AAAA''\<rparr>"

text \<open>A tree with the single regular file \<open>a\<close>, and a fresh rebalancer on it.\<close>

definition tree_a :: fs where
  "tree_a = \<lparr>names = (\<lambda>p. None)(''a'' := Some 0), inodes = (\<lambda>i. file_AAAA), next_ino = 1\<rparr>"

definition fresh :: "fs \<Rightarrow> world" where
  "fresh f = \<lparr>files = f, db = (\<lambda>p. None), shutdownChan = Open, logged = []\<rparr>"

text \<open>The configuration \<^verbatim>\<open>main.go\<close> builds from its defaults, with two passes.\<close>

definition config2 :: Config where
  "config2 = \<lparr>SkipHardlinks = True, PassesLimit = 2, Concurrency = 2, RootPath = ''/'',
               CleanupBalanceFiles = True, RandomOrder = False, SizeThresholdMB = 0,
               ChecksumType = ''sha256'', HaltOnFileMissing = False, ShowFullPaths = True\<rparr>"

text \<open>The ledger with a count already recorded for a path.\<close>

definition counted :: "string \<Rightarrow> int \<Rightarrow> world \<Rightarrow> world" where
  "counted p n w = w\<lparr>db := (db w)(p := Some n)\<rparr>"

text \<open>
  A tree where \<open>a\<close> and \<open>a.balance\<close> are two directory entries of one inode (hard links).
\<close>

definition tree_a_linked :: fs where
  "tree_a_linked = \<lparr>names = (\<lambda>p. None)(''a'' := Some 0, ''a.balance'' := Some 0),
                     inodes = (\<lambda>i. file_AAAA\<lparr>nlink := 2\<rparr>), next_ino = 1\<rparr>"

text \<open>
  Environments in which renaming the temporary copy fails: both renames (onto the
  original path and onto the recovery path), or only the first.
\<close>

definition rename_fails :: env where
  "rename_fails = calm\<lparr>fault := (\<lambda>s q. s = AtRename \<or> s = AtRenameRecovered)\<rparr>"

definition first_rename_fails :: env where
  "first_rename_fails = calm\<lparr>fault := (\<lambda>s q. s = AtRename)\<rparr>"


text \<open>
  Environments in which another process overwrites the temporary copy of \<open>a\<close> after
  the copy and before the verification reads it; in the second one the removal of the
  temporary file is refused as well.
\<close>

definition copy_corrupted :: env where
  "copy_corrupted =
     calm\<lparr>disturb := (\<lambda>s q. if s = AtHashOpen \<and> q = ''a.balance''
                              then Tamper ''a.balance'' ''AAAB'' else Quiet)\<rparr>"

definition copy_corrupted_kept :: env where
  "copy_corrupted_kept = copy_corrupted\<lparr>fault := (\<lambda>s q. s = AtRemoveTmp)\<rparr>"






section \<open>Notions the properties are stated with\<close>

text \<open>
  What \<^verbatim>\<open>GetRebalanceCount\<close> reads when the query succeeds; the messages a call added
  to the log; whether one of them is the success message of line 231 or 234 for a path,
  which is logged exactly when a call went through the whole protocol; and the two
  components of an outcome.
\<close>

definition count_of :: "world \<Rightarrow> string \<Rightarrow> int" where
  "count_of w p = (case db w p of None \<Rightarrow> 0 | Some n \<Rightarrow> n)"

definition new_events :: "world \<Rightarrow> world \<Rightarrow> event list" where
  "new_events w w' = drop (length (logged w)) (logged w')"

definition returned :: "outcome \<Rightarrow> error option option" where
  "returned out = (case out of Inl pn \<Rightarrow> None | Inr (r, w') \<Rightarrow> Some r)"

definition final_world :: "world \<Rightarrow> outcome \<Rightarrow> world" where
  "final_world w out = (case out of Inl pn \<Rightarrow> w | Inr (r, w') \<Rightarrow> w')"

definition rebalanced :: "string \<Rightarrow> event list \<Rightarrow> bool" where
  "rebalanced p evs = (SuccessfullyRebalanced p True \<in> set evs \<or> SuccessfullyRebalanced p False \<in> set evs)"

text \<open>
  The effect of a call on the ledger, as the proofs carry it from step to step: the log
  grows, and the ledger is untouched unless the success message is among the new
  messages; then the call returned \<^verbatim>\<open>nil\<close> and, under a positive pass limit, wrote the
  incremented count.
\<close>

definition ledger_effect :: "Config \<Rightarrow> string \<Rightarrow> int \<Rightarrow> world \<Rightarrow> error option \<Rightarrow> world \<Rightarrow> bool" where
  "ledger_effect c p old w r w' =
     (\<exists>evs. logged w' = logged w @ evs \<and>
        (if rebalanced p evs
         then r = None \<and> db w' = (if PassesLimit c > 0 then (db w)(p := Some (int64 (old + 1))) else db w)
         else db w' = db w))"

definition top_effect :: "Config \<Rightarrow> string \<Rightarrow> world \<Rightarrow> error option \<Rightarrow> world \<Rightarrow> bool" where
  "top_effect c p w r w' =
     (\<exists>evs. logged w' = logged w @ evs \<and>
        (if rebalanced p evs
         then r = None \<and>
              (if PassesLimit c > 0
               then count_of w p < PassesLimit c \<and> db w' = (db w)(p := Some (int64 (count_of w p + 1)))
               else db w' = db w)
         else db w' = db w))"

text \<open>
  An environment without interference; that a path holds given bytes; whether an error
  is the critical one of line 182; a tree that differs from another in metadata only.
\<close>

definition quiet :: "env \<Rightarrow> bool" where
  "quiet e = (\<forall>s q. disturb e s q = Quiet)"

definition has_content :: "fs \<Rightarrow> string \<Rightarrow> string \<Rightarrow> bool" where
  "has_content f q bs = (case names f q of None \<Rightarrow> False | Some i \<Rightarrow> content (inodes f i) = bs)"

definition is_critical :: "error option \<Rightarrow> bool" where
  "is_critical r = (case r of Some (CriticalRenameFailed q err) \<Rightarrow> True | _ \<Rightarrow> False)"

definition same_data :: "fs \<Rightarrow> fs \<Rightarrow> bool" where
  "same_data f f' = (names f' = names f \<and> next_ino f' = next_ino f \<and>
                     (\<forall>i. content (inodes f' i) = content (inodes f i)))"

text \<open>
  Where the bytes of a file are after a call on it: under the critical error the path
  is gone and the bytes are under the recovery path or still under the temporary path;
  after every other outcome they are under the path itself.
\<close>

definition content_safe :: "env \<Rightarrow> string \<Rightarrow> string \<Rightarrow> fs \<Rightarrow> error option \<Rightarrow> fs \<Rightarrow> bool" where
  "content_safe e p bs f0 r f =
     (if is_critical r
      then r = Some (CriticalRenameFailed (p @ ''.recovered'') OtherErr) \<and>
           fault e AtRename (p @ ''.balance'') \<and> names f p = None \<and>
           (has_content f (p @ ''.recovered'') bs \<or> has_content f (p @ ''.balance'') bs) \<and>
           (if fault e AtRenameRecovered (p @ ''.balance'') then has_content f (p @ ''.balance'') bs
            else names f0 (p @ ''.recovered'') = None \<longrightarrow> has_content f (p @ ''.recovered'') bs)
      else has_content f p bs)"


text \<open>
  An environment in which all that others do to the tree is to write into one given
  file; a tree in which a path names a given inode, with given data and attributes,
  that the temporary path does not name as well; whether an error is the checksum
  mismatch of line 151; and the state after a call that returned it.
\<close>

definition only_tampers :: "env \<Rightarrow> string \<Rightarrow> bool" where
  "only_tampers e t =
     (\<forall>s q. case disturb e s q of Quiet \<Rightarrow> True | Vanish x \<Rightarrow> False | Tamper x bs \<Rightarrow> x = t)"

definition intact :: "string \<Rightarrow> nat \<Rightarrow> inode \<Rightarrow> fs \<Rightarrow> bool" where
  "intact p i n f =
     (names f p = Some i \<and> inodes f i = n \<and> names f (p @ ''.balance'') \<noteq> Some i \<and> i < next_ino f)"

definition is_mismatch :: "error option \<Rightarrow> bool" where
  "is_mismatch r = (case r of Some (ChecksumMismatch t q why) \<Rightarrow> True | _ \<Rightarrow> False)"

definition mismatch_post :: "env \<Rightarrow> string \<Rightarrow> nat \<Rightarrow> inode \<Rightarrow> world \<Rightarrow> bool" where
  "mismatch_post e p i n w' =
     (intact p i n (files w') \<and>
      (\<not> fault e AtRemoveTmp (p @ ''.balance'') \<longrightarrow> names (files w') (p @ ''.balance'') = None) \<and>
      logged w' \<noteq> [] \<and> last (logged w') = ChecksumMismatchFor p)"




definition returns_with :: "chan \<Rightarrow> outcome \<Rightarrow> bool" where
  "returns_with ch out = (case out of Inl pn \<Rightarrow> False | Inr (r, w') \<Rightarrow> shutdownChan w' = ch)"

definition tried :: "event \<Rightarrow> string multiset" where
  "tried ev = (case ev of ProcessingFile f \<Rightarrow> {#f#} | _ \<Rightarrow> {#})"

definition attempted :: "event list \<Rightarrow> string multiset" where
  "attempted evs = sum_list (map tried evs)"

definition is_failure :: "event \<Rightarrow> bool" where
  "is_failure ev = (case ev of FailedToRebalance f err \<Rightarrow> True | _ \<Rightarrow> False)"

definition failures :: "event list \<Rightarrow> nat" where
  "failures evs = length (filter is_failure evs)"














text \<open>An outcome with the shutdown channel put into a given state.\<close>

definition with_chan :: "chan \<Rightarrow> outcome \<Rightarrow> outcome" where
  "with_chan ch out = (case out of Inl pn \<Rightarrow> Inl pn | Inr (r, w') \<Rightarrow> Inr (r, w'\<lparr>shutdownChan := ch\<rparr>))"


section \<open>Unfolding the model on concrete inputs\<close>

lemmas os_defs =
  os_Stat_def os_Lstat_def os_Remove_def drop_link_def os_Rename_def os_Chmod_def os_Chtimes_def
  os_Open_def file_Stat_def os_OpenFile_trunc_def file_read_def file_write_def info_of_def
  Mode_def IsRegular_def IsNotExist_def sys_def wsys_def

lemmas rebalance_defs =
  RebalanceFile_def rebalance_passes_def rebalance_stat_def rebalance_copy_def
  rebalance_verify_def rebalance_remove_def rebalance_rename_def rebalance_metadata_def
  rebalance_times_def rebalance_ledger_def file_gone_def InitiateShutdown_def isShuttingDown_def
  logf_def GetRebalanceCount_def SetRebalanceCount_def int64_def GetLinkCount_def
  getLinkCountForPlatform_def io_Copy_def CopyFile_def hash_file_def FileHashMD5_def
  FileHashSHA256_def compare_hashes_def CompareFileMD5_def CompareFileSHA256_def
  CompareFileChecksum_def HasSuffix_def

lemmas input_defs = calm_def walk_a_def file_AAAA_def tree_a_def fresh_def config2_def counted_def
  tree_a_linked_def rename_fails_def first_rename_fails_def

section \<open>What a call leaves alone\<close>

text \<open>System calls and the \<^verbatim>\<open>fileutil\<close> functions touch the tree only.\<close>

lemma ledger_effect_base:
  assumes "db w' = db w" "logged w' = logged w @ evs" "\<not> rebalanced p evs"
  shows "ledger_effect c p old w r w'"
  unfolding ledger_effect_def
  by (rule exI[of _ evs]) (simp add: assms)

lemma ledger_effect_step:
  assumes "ledger_effect c p old w1 r w'" "db w1 = db w" "logged w1 = logged w @ evs" "\<not> rebalanced p evs"
  shows "ledger_effect c p old w r w'"
proof -
  from assms(1) obtain evs' where a: "logged w' = logged w1 @ evs'"
    and b: "if rebalanced p evs'
            then r = None \<and> db w' = (if PassesLimit c > 0 then (db w1)(p := Some (int64 (old + 1))) else db w1)
            else db w' = db w1"
    unfolding ledger_effect_def by blast
  have c: "rebalanced p (evs @ evs') = rebalanced p evs'"
    using assms(4) by (auto simp: rebalanced_def)
  show ?thesis
    unfolding ledger_effect_def
    by (rule exI[of _ "evs @ evs'"]) (use a b c assms(2,3) in simp)
qed

lemma wsys_frame:
  "wsys e s p call w = (r, w') \<Longrightarrow> db w' = db w \<and> logged w' = logged w \<and> shutdownChan w' = shutdownChan w"
  by (auto simp: wsys_def split: prod.splits)

lemma io_Copy_frame:
  "io_Copy e src d s w = (r, w') \<Longrightarrow> db w' = db w \<and> logged w' = logged w \<and> shutdownChan w' = shutdownChan w"
  by (auto simp: io_Copy_def split: prod.splits sum.splits if_splits)

lemma CopyFile_frame:
  "CopyFile e src dst w = (r, w') \<Longrightarrow> db w' = db w \<and> logged w' = logged w \<and> shutdownChan w' = shutdownChan w"
  unfolding CopyFile_def
  by (auto split: prod.splits sum.splits dest!: wsys_frame io_Copy_frame)

lemma hash_file_frame:
  "hash_file h e path w = (r, w') \<Longrightarrow> db w' = db w \<and> logged w' = logged w \<and> shutdownChan w' = shutdownChan w"
  unfolding hash_file_def
  by (auto split: prod.splits sum.splits dest!: wsys_frame)

lemma compare_hashes_frame:
  assumes "\<And>q w r w'. hashf q w = (r, w') \<Longrightarrow> db w' = db w \<and> logged w' = logged w \<and> shutdownChan w' = shutdownChan w"
  shows "compare_hashes hashf orig copy w = (r, w') \<Longrightarrow> db w' = db w \<and> logged w' = logged w \<and> shutdownChan w' = shutdownChan w"
  unfolding compare_hashes_def
  by (auto split: prod.splits sum.splits if_splits dest!: assms)

lemma CompareFileChecksum_frame:
  "CompareFileChecksum e orig copy t w = (r, w') \<Longrightarrow> db w' = db w \<and> logged w' = logged w \<and> shutdownChan w' = shutdownChan w"
  unfolding CompareFileChecksum_def CompareFileMD5_def CompareFileSHA256_def FileHashMD5_def FileHashSHA256_def
  by (auto split: if_splits dest!: compare_hashes_frame[rotated] hash_file_frame)

lemma ledger_effect_ledger:
  "rebalance_ledger c e p old sz w = Inr (r, w') \<Longrightarrow> ledger_effect c p old w r w'"
  by (auto simp: rebalance_ledger_def ledger_effect_def rebalanced_def logf_def SetRebalanceCount_def split: if_splits sum.splits)

lemma GetLinkCount_frame:
  "GetLinkCount e p w = (r, w') \<Longrightarrow> db w' = db w \<and> logged w' = logged w \<and> shutdownChan w' = shutdownChan w"
  unfolding GetLinkCount_def
  by (auto split: prod.splits sum.splits dest!: wsys_frame)

lemma file_gone_cases:
  assumes "file_gone c ev w = Inr (r, w')"
  shows "r = None \<and> (w' = logf ev w \<or>
           w' = (logf InitiatingShutdown (logf HaltOnMissing (logf ev w)))\<lparr>shutdownChan := Closed\<rparr>)"
proof (cases "HaltOnFileMissing c")
  case False
  with assms show ?thesis by (simp add: file_gone_def)
next
  case True
  with assms show ?thesis
    by (auto simp: file_gone_def InitiateShutdown_def Let_def split: sum.splits chan.splits)
qed

lemma file_gone_effect:
  assumes "file_gone c ev w = Inr (r, w')" "\<not> rebalanced p [ev]"
  shows "ledger_effect c p old w r w'"
proof -
  from file_gone_cases[OF assms(1)] have r: "r = None"
    and w': "w' = logf ev w \<or>
           w' = (logf InitiatingShutdown (logf HaltOnMissing (logf ev w)))\<lparr>shutdownChan := Closed\<rparr>"
    by simp_all
  from w' show ?thesis
  proof
    assume "w' = logf ev w"
    then show ?thesis using assms(2)
      by (intro ledger_effect_base[where evs="[ev]"]) (simp_all add: logf_def)
  next
    assume "w' = (logf InitiatingShutdown (logf HaltOnMissing (logf ev w)))\<lparr>shutdownChan := Closed\<rparr>"
    then show ?thesis using assms(2)
      by (intro ledger_effect_base[where evs="[ev, HaltOnMissing, InitiatingShutdown]"])
         (simp_all add: logf_def rebalanced_def)
  qed
qed

lemma ledger_effect_times:
  "rebalance_times c e p t ni old sz w = Inr (r, w') \<Longrightarrow> ledger_effect c p old w r w'"
  unfolding rebalance_times_def
  apply (auto split: if_splits prod.splits sum.splits dest!: wsys_frame ledger_effect_ledger)
  apply ((rule ledger_effect_base[where evs="[]"]; simp add: rebalanced_def logf_def; fail)
       | (erule ledger_effect_step[where evs="[FixedTimestamps p]"]; simp add: rebalanced_def logf_def; fail))+
  done

lemma ledger_effect_metadata:
  "rebalance_metadata c e p m t old sz w = Inr (r, w') \<Longrightarrow> ledger_effect c p old w r w'"
  unfolding rebalance_metadata_def
  apply (auto split: if_splits prod.splits sum.splits dest!: wsys_frame ledger_effect_times)
  apply ((rule ledger_effect_base[where evs="[DisappearedAfterRename p]"]; simp add: rebalanced_def logf_def; fail)
       | (rule ledger_effect_base[where evs="[]"]; simp add: rebalanced_def logf_def; fail)
       | (rule ledger_effect_base[where evs="[PermissionMismatch]"]; simp add: rebalanced_def logf_def; fail)
       | (erule ledger_effect_step[where evs="[PermissionMismatch, FixedPermissions p]"]; simp add: rebalanced_def logf_def; fail)
       | (erule ledger_effect_step[where evs="[]"]; simp add: rebalanced_def logf_def; fail))+
  done

lemma ledger_effect_rename:
  "rebalance_rename c e p m t old sz w = Inr (r, w') \<Longrightarrow> ledger_effect c p old w r w'"
  unfolding rebalance_rename_def
  apply (auto split: if_splits prod.splits sum.splits dest!: wsys_frame ledger_effect_metadata)
  apply ((rule ledger_effect_base[where evs="[RenamingTemp p]"]; simp add: rebalanced_def logf_def; fail)
       | (erule ledger_effect_step[where evs="[RenamingTemp p]"]; simp add: rebalanced_def logf_def; fail))+
  done

lemma ledger_effect_remove:
  "rebalance_remove c e p m t old sz w = Inr (r, w') \<Longrightarrow> ledger_effect c p old w r w'"
  unfolding rebalance_remove_def
  apply (auto split: if_splits prod.splits sum.splits
              dest!: wsys_frame ledger_effect_rename
                     file_gone_effect[where p=p and old=old and ev="OriginalNoLongerOnDisk p"]
              simp: rebalanced_def)
  apply ((rule ledger_effect_base[where evs="[RemovingOriginal p]"]; simp add: rebalanced_def logf_def; fail)
       | (erule ledger_effect_step[where evs="[RemovingOriginal p]"]; simp add: rebalanced_def logf_def; fail))+
  done

lemma ledger_effect_verify:
  "rebalance_verify c e p m t old sz w = Inr (r, w') \<Longrightarrow> ledger_effect c p old w r w'"
  unfolding rebalance_verify_def
  apply (auto split: if_splits prod.splits sum.splits
              dest!: wsys_frame CompareFileChecksum_frame ledger_effect_remove)
  apply ((rule ledger_effect_base[where evs="[ChecksumMismatchFor p]"]; simp add: rebalanced_def logf_def; fail)
       | (erule ledger_effect_step[where evs="[]"]; simp add: rebalanced_def logf_def; fail))+
  done

lemma ledger_effect_copy:
  "rebalance_copy c e p si old w = Inr (r, w') \<Longrightarrow> ledger_effect c p old w r w'"
  unfolding rebalance_copy_def
  apply (auto split: if_splits prod.splits sum.splits
              dest!: CopyFile_frame ledger_effect_verify)
  apply ((rule ledger_effect_base[where evs="[]"]; simp add: rebalanced_def logf_def; fail)
       | (erule ledger_effect_step[where evs="[]"]; simp add: rebalanced_def logf_def; fail))+
  done

lemma ledger_effect_stat:
  "rebalance_stat c e p old w = Inr (r, w') \<Longrightarrow> ledger_effect c p old w r w'"
  unfolding rebalance_stat_def
  apply (auto split: if_splits prod.splits sum.splits
              dest!: wsys_frame ledger_effect_copy
                     file_gone_effect[where p=p and old=old and ev="FileNoLongerOnDisk p"]
              simp: rebalanced_def)
  apply ((rule ledger_effect_base[where evs="[]"]; simp add: rebalanced_def logf_def; fail)
       | (rule ledger_effect_base[where evs="[SkippingNonRegular p]"]; simp add: rebalanced_def logf_def; fail)
       | (rule ledger_effect_base[where evs="[CopyingTo p (p @ ''.balance''), ShutdownSkipping p]"]; simp add: rebalanced_def logf_def; fail)
       | (erule ledger_effect_step[where evs="[]"]; simp add: rebalanced_def logf_def; fail)
       | (erule ledger_effect_step[where evs="[CopyingTo p (p @ ''.balance'')]"]; simp add: rebalanced_def logf_def; fail))+
  done

lemma top_effect_base:
  assumes "db w' = db w" "logged w' = logged w @ evs" "\<not> rebalanced p evs"
  shows "top_effect c p w r w'"
  unfolding top_effect_def
  by (rule exI[of _ evs]) (simp add: assms)

lemma top_effect_frame:
  assumes "top_effect c p w1 r w'" "db w1 = db w" "logged w1 = logged w"
  shows "top_effect c p w r w'"
proof -
  have "top_effect c p w r w' = top_effect c p w1 r w'"
    unfolding top_effect_def count_of_def by (simp only: assms(2,3))
  then show ?thesis using assms(1) by simp
qed

lemma top_of_ledger:
  assumes "ledger_effect c p (count_of w p) w r w'"
    and "PassesLimit c > 0 \<Longrightarrow> count_of w p < PassesLimit c"
  shows "top_effect c p w r w'"
proof -
  from assms(1) obtain evs where a: "logged w' = logged w @ evs"
    and b: "if rebalanced p evs
            then r = None \<and> db w' = (if PassesLimit c > 0 then (db w)(p := Some (int64 (count_of w p + 1))) else db w)
            else db w' = db w"
    unfolding ledger_effect_def by blast
  show ?thesis
    unfolding top_effect_def
    by (rule exI[of _ evs]) (use a b assms(2) in \<open>simp split: if_splits\<close>)
qed

lemma top_effect_passes:
  assumes "rebalance_passes c e p w = Inr (r, w')"
  shows "top_effect c p w r w'"
proof (cases "fault e AtDbGet p")
  case True
  with assms have "r = Some DbReadError" "w' = w"
    by (simp_all add: rebalance_passes_def GetRebalanceCount_def)
  then show ?thesis by (intro top_effect_base[where evs="[]"]) (simp_all add: rebalanced_def)
next
  case False
  then have g: "GetRebalanceCount e w p = Inr (count_of w p)"
    by (simp add: GetRebalanceCount_def count_of_def split: option.splits)
  show ?thesis
  proof (cases "PassesLimit c > 0 \<and> count_of w p \<ge> PassesLimit c")
    case True
    with assms g have "r = None" "w' = logf (PassCountReached (PassesLimit c) p) w"
      by (simp_all add: rebalance_passes_def)
    then show ?thesis
      by (intro top_effect_base[where evs="[PassCountReached (PassesLimit c) p]"])
         (simp_all add: rebalanced_def logf_def)
  next
    case False
    with assms g have "rebalance_stat c e p (count_of w p) w = Inr (r, w')"
      by (simp add: rebalance_passes_def)
    from ledger_effect_stat[OF this] show ?thesis
      by (rule top_of_ledger) (use False in simp)
  qed
qed

lemma top_effect_RebalanceFile:
  assumes "RebalanceFile c e p w = Inr (r, w')"
  shows "top_effect c p w r w'"
proof (cases "HasSuffix p ''.balance''")
  case True
  with assms have "r = None" "w' = logf (SkippingTemporary p) w"
    by (simp_all add: RebalanceFile_def)
  then show ?thesis
    by (intro top_effect_base[where evs="[SkippingTemporary p]"]) (simp_all add: rebalanced_def logf_def)
next
  case ns: False
  show ?thesis
  proof (cases "SkipHardlinks c")
    case False
    with assms ns have "rebalance_passes c e p w = Inr (r, w')" by (simp add: RebalanceFile_def)
    then show ?thesis by (rule top_effect_passes)
  next
    case True
    obtain x w1 where gl: "GetLinkCount e p w = (x, w1)" by (cases "GetLinkCount e p w")
    note fr = GetLinkCount_frame[OF gl]
    show ?thesis
    proof (cases x)
      case (Inl err)
      show ?thesis
      proof (cases "err = LstatFailed NotExist")
        case True
        with assms ns \<open>SkipHardlinks c\<close> gl Inl have "file_gone c (FileNoLongerOnDisk p) w1 = Inr (r, w')"
          by (simp add: RebalanceFile_def)
        from file_gone_cases[OF this]
        have "w' = logf (FileNoLongerOnDisk p) w1 \<or>
              w' = (logf InitiatingShutdown (logf HaltOnMissing (logf (FileNoLongerOnDisk p) w1)))\<lparr>shutdownChan := Closed\<rparr>"
          by simp
        then have "top_effect c p w1 r w'"
        proof
          assume "w' = logf (FileNoLongerOnDisk p) w1"
          then show ?thesis
            by (intro top_effect_base[where evs="[FileNoLongerOnDisk p]"]) (simp_all add: logf_def rebalanced_def)
        next
          assume "w' = (logf InitiatingShutdown (logf HaltOnMissing (logf (FileNoLongerOnDisk p) w1)))\<lparr>shutdownChan := Closed\<rparr>"
          then show ?thesis
            by (intro top_effect_base[where evs="[FileNoLongerOnDisk p, HaltOnMissing, InitiatingShutdown]"])
               (simp_all add: logf_def rebalanced_def)
        qed
        then show ?thesis by (rule top_effect_frame) (simp_all add: fr)
      next
        case False
        with assms ns \<open>SkipHardlinks c\<close> gl Inl have "r = Some (HardlinkCheckFailed p err)" "w' = w1"
          by (simp_all add: RebalanceFile_def)
        then show ?thesis using fr
          by (intro top_effect_base[where evs="[]"]) (simp_all add: rebalanced_def)
      qed
    next
      case (Inr n)
      show ?thesis
      proof (cases "n > 1")
        case True
        with assms ns \<open>SkipHardlinks c\<close> gl Inr have "r = None" "w' = logf (SkippingHardlinked p) w1"
          by (simp_all add: RebalanceFile_def)
        then show ?thesis using fr
          by (intro top_effect_base[where evs="[SkippingHardlinked p]"]) (simp_all add: rebalanced_def logf_def)
      next
        case False
        with assms ns \<open>SkipHardlinks c\<close> gl Inr have "rebalance_passes c e p w1 = Inr (r, w')"
          by (simp add: RebalanceFile_def)
        from top_effect_passes[OF this] show ?thesis by (rule top_effect_frame) (simp_all add: fr)
      qed
    qed
  qed
qed

lemma int64_id: "- (2 ^ 63) \<le> x \<Longrightarrow> x < 2 ^ 63 \<Longrightarrow> int64 x = x"
  by (simp add: int64_def)

section \<open>The steps before the copy\<close>

lemma wsys_calm:
  "disturb e s p = Quiet \<Longrightarrow> \<not> fault e s p \<Longrightarrow>
   wsys e s p call w = (case call (files w) of (r, f) \<Rightarrow> (r, w\<lparr>files := f\<rparr>))"
  by (simp add: wsys_def sys_def)

lemma wsys_fault:
  "disturb e s p = Quiet \<Longrightarrow> fault e s p \<Longrightarrow> wsys e s p call w = (Inl OtherErr, w)"
  by (simp add: wsys_def sys_def)

lemma GetLinkCount_present:
  "disturb e AtLstat p = Quiet \<Longrightarrow> \<not> fault e AtLstat p \<Longrightarrow> names (files w) p = Some i \<Longrightarrow>
   GetLinkCount e p w = (Inr (case goos e of Unix \<Rightarrow> nlink (inodes (files w) i) | Windows \<Rightarrow> 1), w)"
  by (simp add: GetLinkCount_def wsys_calm os_Lstat_def getLinkCountForPlatform_def info_of_def
           split: platform.splits)

lemma GetLinkCount_absent:
  "disturb e AtLstat p = Quiet \<Longrightarrow> \<not> fault e AtLstat p \<Longrightarrow> names (files w) p = None \<Longrightarrow>
   GetLinkCount e p w = (Inl (LstatFailed NotExist), w)"
  by (simp add: GetLinkCount_def wsys_calm os_Lstat_def)

lemma GetLinkCount_fault:
  "disturb e AtLstat p = Quiet \<Longrightarrow> fault e AtLstat p \<Longrightarrow>
   GetLinkCount e p w = (Inl (LstatFailed OtherErr), w)"
  by (simp add: GetLinkCount_def wsys_fault)

lemma file_gone_returns:
  "\<not> (HaltOnFileMissing c \<and> shutdownChan w = Closed) \<Longrightarrow>
   \<exists>w'. file_gone c ev w = Inr (None, w') \<and> files w' = files w \<and> db w' = db w
        \<and> (HaltOnFileMissing c \<longrightarrow> shutdownChan w' = Closed)"
  by (cases "shutdownChan w") (auto simp: file_gone_def InitiateShutdown_def Let_def logf_def)

lemma passes_reached:
  "0 < PassesLimit c \<Longrightarrow> GetRebalanceCount e w p = Inr n \<Longrightarrow> PassesLimit c \<le> n \<Longrightarrow>
   rebalance_passes c e p w = Inr (None, logf (PassCountReached (PassesLimit c) p) w)"
  by (simp add: rebalance_passes_def)

lemma GetRebalanceCount_ok:
  "\<not> fault e AtDbGet p \<Longrightarrow> GetRebalanceCount e w p = Inr (count_of w p)"
  by (simp add: GetRebalanceCount_def count_of_def split: option.splits)



lemma passes_cases:
  assumes "\<not> fault e AtDbGet p"
  shows "rebalance_passes c e p w =
           (if 0 < PassesLimit c \<and> PassesLimit c \<le> count_of w p
            then Inr (None, logf (PassCountReached (PassesLimit c) p) w)
            else rebalance_stat c e p (count_of w p) w)"
  using assms by (simp add: rebalance_passes_def GetRebalanceCount_ok)








section \<open>Where the content is after a call\<close>

text \<open>
  In an environment without interference, for a file whose temporary path is not
  another entry of its own inode, every step keeps the bytes reachable.
\<close>

lemma wsys_quiet:
  "quiet e \<Longrightarrow> wsys e s q call w =
     (if fault e s q then (Inl OtherErr, w)
      else (case call (files w) of (r, f) \<Rightarrow> (r, w\<lparr>files := f\<rparr>)))"
  by (simp add: quiet_def wsys_def sys_def)

lemma same_data_refl: "same_data f f"
  by (simp add: same_data_def)

lemma same_data_trans: "same_data f f1 \<Longrightarrow> same_data f1 f2 \<Longrightarrow> same_data f f2"
  by (simp add: same_data_def)

lemma same_data_has_content: "same_data f f' \<Longrightarrow> has_content f' q bs = has_content f q bs"
  by (auto simp: same_data_def has_content_def split: option.splits)

lemma Chmod_same: "os_Chmod p m f = (x, f') \<Longrightarrow> same_data f f'"
  by (auto simp: os_Chmod_def same_data_def split: option.splits)

lemma Chtimes_same: "os_Chtimes p t f = (x, f') \<Longrightarrow> same_data f f'"
  by (auto simp: os_Chtimes_def same_data_def split: option.splits)

lemma Stat_same: "os_Stat p f = (x, f') \<Longrightarrow> f' = f"
  by (auto simp: os_Stat_def split: option.splits)

lemma is_critical_simps:
  "\<not> is_critical None"
  "\<not> is_critical (Some (HardlinkCheckFailed p le))"
  "\<not> is_critical (Some DbReadError)"
  "\<not> is_critical (Some (FailedToStat p err))"
  "\<not> is_critical (Some (CopyFailed err))"
  "\<not> is_critical (Some (ChecksumMismatch t p why))"
  "\<not> is_critical (Some (RemoveFailed err))"
  "is_critical (Some (CriticalRenameFailed p err))"
  "\<not> is_critical (Some FileDisappearedAfterRename)"
  "\<not> is_critical (Some (StatAfterRenameFailed err))"
  "\<not> is_critical (Some (FixPermissionsFailed err))"
  "\<not> is_critical (Some (FixTimestampsFailed err))"
  "\<not> is_critical (Some DbUpdateError)"
  by (simp_all add: is_critical_def)

lemma ledger_same:
  "rebalance_ledger c e p old sz w = Inr (r, w') \<Longrightarrow> files w' = files w \<and> \<not> is_critical r"
  by (auto simp: rebalance_ledger_def SetRebalanceCount_def logf_def is_critical_simps
           split: if_splits sum.splits)

lemma times_same:
  assumes "quiet e" "rebalance_times c e p t ni old sz w = Inr (r, w')"
  shows "same_data (files w) (files w') \<and> \<not> is_critical r"
proof (cases "fi_mtime ni \<noteq> t")
  case False
  with assms(2) have "rebalance_ledger c e p old sz w = Inr (r, w')" by (simp add: rebalance_times_def)
  from ledger_same[OF this] show ?thesis by (simp add: same_data_refl)
next
  case True
  show ?thesis
  proof (cases "fault e AtChtimes p")
    case True
    with assms \<open>fi_mtime ni \<noteq> t\<close> have "r = Some (FixTimestampsFailed OtherErr)" "w' = w"
      by (simp_all add: rebalance_times_def wsys_quiet)
    then show ?thesis by (simp add: same_data_refl is_critical_simps)
  next
    case False
    obtain x f1 where ch: "os_Chtimes p t (files w) = (x, f1)" by (cases "os_Chtimes p t (files w)")
    note sd = Chtimes_same[OF ch]
    show ?thesis
    proof (cases x)
      case (Inl err)
      with assms \<open>fi_mtime ni \<noteq> t\<close> False ch have "r = Some (FixTimestampsFailed err)" "w' = w\<lparr>files := f1\<rparr>"
        by (simp_all add: rebalance_times_def wsys_quiet)
      then show ?thesis using sd by (simp add: is_critical_simps)
    next
      case (Inr u)
      with assms \<open>fi_mtime ni \<noteq> t\<close> False ch
      have "rebalance_ledger c e p old sz (logf (FixedTimestamps p) (w\<lparr>files := f1\<rparr>)) = Inr (r, w')"
        by (simp add: rebalance_times_def wsys_quiet)
      from ledger_same[OF this] show ?thesis using sd by (simp add: logf_def)
    qed
  qed
qed

lemma metadata_same:
  assumes "quiet e" "rebalance_metadata c e p m t old sz w = Inr (r, w')"
  shows "same_data (files w) (files w') \<and> \<not> is_critical r"
proof (cases "fault e AtRestat p")
  case True
  with assms have "r = Some (StatAfterRenameFailed OtherErr)" "w' = w"
    by (simp_all add: rebalance_metadata_def wsys_quiet IsNotExist_def)
  then show ?thesis by (simp add: same_data_refl is_critical_simps)
next
  case nf: False
  obtain x f1 where st: "os_Stat p (files w) = (x, f1)" by (cases "os_Stat p (files w)")
  from Stat_same[OF st] have f1: "f1 = files w" .
  show ?thesis
  proof (cases x)
    case (Inl err)
    with assms nf st f1 have "files w' = files w" "\<not> is_critical r"
      by (auto simp: rebalance_metadata_def wsys_quiet logf_def is_critical_simps split: if_splits)
    then show ?thesis by (simp add: same_data_refl)
  next
    case (Inr newInfo)
    show ?thesis
    proof (cases "Mode newInfo \<noteq> m")
      case False
      with assms nf st f1 Inr have "rebalance_times c e p t newInfo old sz w = Inr (r, w')"
        by (simp add: rebalance_metadata_def wsys_quiet)
      from times_same[OF assms(1) this] show ?thesis .
    next
      case True
      show ?thesis
      proof (cases "fault e AtChmod p")
        case True
        with assms nf st f1 Inr \<open>Mode newInfo \<noteq> m\<close>
        have "r = Some (FixPermissionsFailed OtherErr)" "w' = logf PermissionMismatch w"
          by (simp_all add: rebalance_metadata_def wsys_quiet)
        then show ?thesis by (simp add: same_data_refl is_critical_simps logf_def)
      next
        case False
        obtain y f2 where cm: "os_Chmod p (snd m) (files w) = (y, f2)" by (cases "os_Chmod p (snd m) (files w)")
        note sd = Chmod_same[OF cm]
        show ?thesis
        proof (cases y)
          case (Inl err)
          with assms nf st f1 Inr \<open>Mode newInfo \<noteq> m\<close> False cm
          have "r = Some (FixPermissionsFailed err)" "files w' = f2"
            by (auto simp: rebalance_metadata_def wsys_quiet logf_def)
          then show ?thesis using sd by (simp add: is_critical_simps)
        next
          case (Inr u)
          with assms nf st f1 \<open>x = Inr newInfo\<close> \<open>Mode newInfo \<noteq> m\<close> False cm
          have "rebalance_times c e p t newInfo old sz
                  (logf (FixedPermissions p) ((logf PermissionMismatch w)\<lparr>files := f2\<rparr>)) = Inr (r, w')"
            by (simp add: rebalance_metadata_def wsys_quiet logf_def)
          from times_same[OF assms(1) this] have "same_data f2 (files w')" "\<not> is_critical r"
            by (simp_all add: logf_def)
          with sd show ?thesis by (auto intro: same_data_trans)
        qed
      qed
    qed
  qed
qed

lemma tmp_neq [simp]:
  "p @ ''.balance'' \<noteq> p" "p \<noteq> p @ ''.balance''"
  "p @ ''.recovered'' \<noteq> p" "p \<noteq> p @ ''.recovered''"
  "p @ ''.balance'' \<noteq> p @ ''.recovered''" "p @ ''.recovered'' \<noteq> p @ ''.balance''"
  by simp_all

lemma content_safe_cong:
  "content_safe e p bs f1 r f \<Longrightarrow>
   names f1 (p @ ''.recovered'') = names f0 (p @ ''.recovered'') \<Longrightarrow>
   content_safe e p bs f0 r f"
  by (simp add: content_safe_def)

lemma content_safe_plain:
  "\<not> is_critical r \<Longrightarrow> has_content f p bs \<Longrightarrow> content_safe e p bs f0 r f"
  by (simp add: content_safe_def)

lemma Rename_recovered:
  assumes "names f src = Some j" "src \<noteq> dst" "src \<noteq> p" "dst \<noteq> p" "os_Rename src dst f = (y, f2)"
  shows "names f2 p = names f p
       \<and> (has_content f2 dst (content (inodes f j)) \<or> has_content f2 src (content (inodes f j)))
       \<and> (names f dst = None \<longrightarrow> has_content f2 dst (content (inodes f j)))"
  using assms
  by (auto simp: os_Rename_def drop_link_def has_content_def split: option.splits if_splits)

lemma Remove_other:
  assumes "q \<noteq> p" "os_Remove q f = (y, f2)"
  shows "names f2 p = names f p \<and> (\<forall>i. content (inodes f2 i) = content (inodes f i))
         \<and> (y = Inr () \<longrightarrow> names f2 q = None)"
  using assms
  by (auto simp: os_Remove_def drop_link_def split: option.splits)

lemma rename_safe:
  assumes "quiet e" "names (files w) p = None" "names (files w) (p @ ''.balance'') = Some j"
    and "content (inodes (files w) j) = bs"
    and "rebalance_rename c e p m t old sz w = Inr (r, w')"
  shows "content_safe e p bs (files w) r (files w')"
proof (cases "fault e AtRename (p @ ''.balance'')")
  case True
  show ?thesis
  proof (cases "fault e AtRenameRecovered (p @ ''.balance'')")
    case True
    with assms \<open>fault e AtRename (p @ ''.balance'')\<close>
    have "r = Some (CriticalRenameFailed (p @ ''.recovered'') OtherErr)" "files w' = files w"
      by (auto simp: rebalance_rename_def wsys_quiet logf_def)
    then show ?thesis using assms(2-4) True \<open>fault e AtRename (p @ ''.balance'')\<close>
      by (simp add: content_safe_def is_critical_simps has_content_def)
  next
    case False
    obtain y f2 where rn: "os_Rename (p @ ''.balance'') (p @ ''.recovered'') (files w) = (y, f2)"
      by (cases "os_Rename (p @ ''.balance'') (p @ ''.recovered'') (files w)")
    with assms \<open>fault e AtRename (p @ ''.balance'')\<close> False
    have r: "r = Some (CriticalRenameFailed (p @ ''.recovered'') OtherErr)" and f: "files w' = f2"
      by (auto simp: rebalance_rename_def wsys_quiet logf_def)
    from Rename_recovered[OF assms(3) _ _ _ rn, of p]
    have "names f2 p = names (files w) p"
      "has_content f2 (p @ ''.recovered'') bs \<or> has_content f2 (p @ ''.balance'') bs"
      "names (files w) (p @ ''.recovered'') = None \<longrightarrow> has_content f2 (p @ ''.recovered'') bs"
      using assms(4) by simp_all
    then show ?thesis using r f assms(2) False \<open>fault e AtRename (p @ ''.balance'')\<close>
      by (simp add: content_safe_def is_critical_simps)
  qed
next
  case False
  have rn: "os_Rename (p @ ''.balance'') p (files w)
              = (Inr (), (files w)\<lparr>names := (names (files w))(p := Some j, p @ ''.balance'' := None)\<rparr>)"
    using assms(2,3) by (simp add: os_Rename_def)
  with assms False
  have "rebalance_metadata c e p m t old sz
          ((logf (RenamingTemp p) w)\<lparr>files := (files w)\<lparr>names := (names (files w))(p := Some j, p @ ''.balance'' := None)\<rparr>\<rparr>)
         = Inr (r, w')"
    by (simp add: rebalance_rename_def wsys_quiet logf_def)
  from metadata_same[OF assms(1) this]
  have sd: "same_data ((files w)\<lparr>names := (names (files w))(p := Some j, p @ ''.balance'' := None)\<rparr>) (files w')"
    and nc: "\<not> is_critical r" by (simp_all add: logf_def)
  have "has_content ((files w)\<lparr>names := (names (files w))(p := Some j, p @ ''.balance'' := None)\<rparr>) p bs"
    using assms(4) by (simp add: has_content_def)
  with sd have "has_content (files w') p bs" by (simp add: same_data_has_content)
  with nc show ?thesis by (rule content_safe_plain)
qed

lemma remove_safe:
  assumes "quiet e" "names (files w) p = Some i" "names (files w) (p @ ''.balance'') = Some j"
    and "content (inodes (files w) i) = bs" "content (inodes (files w) j) = bs"
    and "rebalance_remove c e p m t old sz w = Inr (r, w')"
  shows "content_safe e p bs (files w) r (files w')"
proof (cases "fault e AtRemoveOrig p")
  case True
  obtain y w2 where rt: "wsys e AtRemoveTmp (p @ ''.balance'') (os_Remove (p @ ''.balance''))
                           (logf (RemovingOriginal p) w) = (y, w2)"
    by (cases "wsys e AtRemoveTmp (p @ ''.balance'') (os_Remove (p @ ''.balance'')) (logf (RemovingOriginal p) w)")
  with assms True have r: "r = Some (RemoveFailed OtherErr)" and w': "w' = w2"
    by (auto simp: rebalance_remove_def wsys_quiet IsNotExist_def)
  have "has_content (files w2) p bs"
  proof (cases "fault e AtRemoveTmp (p @ ''.balance'')")
    case True
    with rt assms(1) have "files w2 = files w" by (auto simp: wsys_quiet logf_def)
    then show ?thesis using assms(2,4) by (simp add: has_content_def)
  next
    case False
    obtain z f2 where rm: "os_Remove (p @ ''.balance'') (files w) = (z, f2)"
      by (cases "os_Remove (p @ ''.balance'') (files w)")
    with rt assms(1) False have "files w2 = f2" by (auto simp: wsys_quiet logf_def)
    moreover from Remove_other[OF _ rm, of p]
    have "names f2 p = names (files w) p" "\<forall>i. content (inodes f2 i) = content (inodes (files w) i)"
      by simp_all
    ultimately show ?thesis using assms(2,4) by (simp add: has_content_def)
  qed
  then show ?thesis using r w' by (simp add: content_safe_def is_critical_simps)
next
  case False
  have rm: "os_Remove p (files w) = (Inr (), (drop_link i (files w))\<lparr>names := (names (files w))(p := None)\<rparr>)"
    using assms(2) by (simp add: os_Remove_def)
  let ?f1 = "(drop_link i (files w))\<lparr>names := (names (files w))(p := None)\<rparr>"
  from rm assms False
  have rr: "rebalance_rename c e p m t old sz ((logf (RemovingOriginal p) w)\<lparr>files := ?f1\<rparr>) = Inr (r, w')"
    by (simp add: rebalance_remove_def wsys_quiet logf_def)
  have h1: "names (files ((logf (RemovingOriginal p) w)\<lparr>files := ?f1\<rparr>)) p = None" by simp
  have h2: "names (files ((logf (RemovingOriginal p) w)\<lparr>files := ?f1\<rparr>)) (p @ ''.balance'') = Some j"
    using assms(3) by (simp add: drop_link_def)
  have h3: "content (inodes (files ((logf (RemovingOriginal p) w)\<lparr>files := ?f1\<rparr>)) j) = bs"
    using assms(4,5) by (simp add: drop_link_def)
  from rename_safe[OF assms(1) h1 h2 h3 rr]
  have "content_safe e p bs ?f1 r (files w')" by simp
  moreover have "names ?f1 (p @ ''.recovered'') = names (files w) (p @ ''.recovered'')"
    by (simp add: drop_link_def)
  ultimately show ?thesis by (rule content_safe_cong)
qed

lemma hash_file_quiet:
  "quiet e \<Longrightarrow> hash_file h e q w = (x, w1) \<Longrightarrow> w1 = w"
  by (auto simp: hash_file_def wsys_quiet os_Open_def file_read_def
           split: if_splits option.splits sum.splits prod.splits)

lemma compare_hashes_quiet:
  assumes "\<And>q w x w1. hashf q w = (x, w1) \<Longrightarrow> w1 = w"
  shows "compare_hashes hashf a b w = (x, w1) \<Longrightarrow> w1 = w"
  unfolding compare_hashes_def
  by (auto split: prod.splits sum.splits if_splits dest!: assms)

lemma Compare_quiet:
  assumes "quiet e" "CompareFileChecksum e a b t w = (x, w1)"
  shows "w1 = w"
proof -
  have h: "\<And>h a b x w w1. compare_hashes (hash_file h e) a b w = (x, w1) \<Longrightarrow> w1 = w"
    by (erule compare_hashes_quiet[rotated]) (rule hash_file_quiet[OF assms(1)])
  show ?thesis
    using assms(2)
    unfolding CompareFileChecksum_def CompareFileMD5_def CompareFileSHA256_def FileHashMD5_def FileHashSHA256_def
    by (auto split: if_splits dest: h)
qed

lemma CopyFile_quiet:
  assumes "quiet e" "names (files w) p = Some i" "content (inodes (files w) i) = bs"
    and "names (files w) (p @ ''.balance'') \<noteq> Some i" "i < next_ino (files w)"
    and "CopyFile e p (p @ ''.balance'') w = (x, w1)"
  shows "names (files w1) p = Some i \<and> content (inodes (files w1) i) = bs
       \<and> names (files w1) (p @ ''.recovered'') = names (files w) (p @ ''.recovered'')
       \<and> (x = Inr () \<longrightarrow> (\<exists>j. names (files w1) (p @ ''.balance'') = Some j
                               \<and> content (inodes (files w1) j) = bs))"
  using assms
  by (auto simp: CopyFile_def wsys_quiet io_Copy_def quiet_def os_Open_def file_Stat_def
                 os_OpenFile_trunc_def file_read_def file_write_def os_Chtimes_def
           split: if_splits option.splits sum.splits prod.splits)

lemma file_gone_files:
  "file_gone c ev w = Inr (r, w') \<Longrightarrow> files w' = files w \<and> r = None"
  using file_gone_cases[of c ev w r w'] by (auto simp: logf_def)

lemma verify_safe:
  assumes "quiet e" "names (files w) p = Some i" "names (files w) (p @ ''.balance'') = Some j"
    and "content (inodes (files w) i) = bs" "content (inodes (files w) j) = bs"
    and "rebalance_verify c e p m t old sz w = Inr (r, w')"
  shows "content_safe e p bs (files w) r (files w')"
proof -
  obtain ok why w1 where cmp: "CompareFileChecksum e p (p @ ''.balance'')
        (if ChecksumType c = [] then ''sha256'' else ChecksumType c) w = ((ok, why), w1)"
    by (cases "CompareFileChecksum e p (p @ ''.balance'')
        (if ChecksumType c = [] then ''sha256'' else ChecksumType c) w") auto
  from Compare_quiet[OF assms(1) cmp] have w1: "w1 = w" .
  show ?thesis
  proof (cases ok)
    case True
    with assms(6) cmp w1 have "rebalance_remove c e p m t old sz w = Inr (r, w')"
      by (simp add: rebalance_verify_def)
    from remove_safe[OF assms(1-5) this] show ?thesis .
  next
    case False
    obtain y w2 where rt: "wsys e AtRemoveTmp (p @ ''.balance'') (os_Remove (p @ ''.balance'')) w = (y, w2)"
      by (cases "wsys e AtRemoveTmp (p @ ''.balance'') (os_Remove (p @ ''.balance'')) w")
    with assms(6) cmp w1 False have nc: "\<not> is_critical r" and w': "files w' = files w2"
      by (auto simp: rebalance_verify_def logf_def is_critical_simps)
    have "has_content (files w2) p bs"
    proof (cases "fault e AtRemoveTmp (p @ ''.balance'')")
      case True
      with rt assms(1) have "files w2 = files w" by (auto simp: wsys_quiet)
      then show ?thesis using assms(2,4) by (simp add: has_content_def)
    next
      case False
      obtain z f2 where rm: "os_Remove (p @ ''.balance'') (files w) = (z, f2)"
        by (cases "os_Remove (p @ ''.balance'') (files w)")
      with rt assms(1) False have "files w2 = f2" by (auto simp: wsys_quiet)
      moreover from Remove_other[OF _ rm, of p]
      have "names f2 p = names (files w) p" "\<forall>i. content (inodes f2 i) = content (inodes (files w) i)"
        by simp_all
      ultimately show ?thesis using assms(2,4) by (simp add: has_content_def)
    qed
    with nc w' show ?thesis by (simp add: content_safe_plain)
  qed
qed

lemma copy_safe:
  assumes "quiet e" "names (files w) p = Some i" "content (inodes (files w) i) = bs"
    and "names (files w) (p @ ''.balance'') \<noteq> Some i" "i < next_ino (files w)"
    and "rebalance_copy c e p si old w = Inr (r, w')"
  shows "content_safe e p bs (files w) r (files w')"
proof -
  obtain x w1 where cp: "CopyFile e p (p @ ''.balance'') w = (x, w1)"
    by (cases "CopyFile e p (p @ ''.balance'') w")
  note k = CopyFile_quiet[OF assms(1-5) cp]
  show ?thesis
  proof (cases x)
    case (Inl err)
    with assms(6) cp have "r = Some (CopyFailed err)" "w' = w1" by (simp_all add: rebalance_copy_def)
    with k show ?thesis by (simp add: content_safe_plain is_critical_simps has_content_def)
  next
    case (Inr u)
    with k obtain j where j: "names (files w1) (p @ ''.balance'') = Some j" "content (inodes (files w1) j) = bs"
      by auto
    from Inr assms(6) cp
    have "rebalance_verify c e p (Mode si) (fi_mtime si) old (fi_size si) w1 = Inr (r, w')"
      by (simp add: rebalance_copy_def)
    from verify_safe[OF assms(1) _ j(1) _ j(2) this, of i] k
    have "content_safe e p bs (files w1) r (files w')" by simp
    then show ?thesis by (rule content_safe_cong) (simp add: k)
  qed
qed

lemma stat_safe:
  assumes "quiet e" "names (files w) p = Some i" "content (inodes (files w) i) = bs"
    and "names (files w) (p @ ''.balance'') \<noteq> Some i" "i < next_ino (files w)"
    and "rebalance_stat c e p old w = Inr (r, w')"
  shows "content_safe e p bs (files w) r (files w')"
proof (cases "fault e AtStat p")
  case True
  with assms(1,6) have "r = Some (FailedToStat p OtherErr)" "w' = w"
    by (simp_all add: rebalance_stat_def wsys_quiet IsNotExist_def)
  then show ?thesis using assms(2,3) by (simp add: content_safe_plain is_critical_simps has_content_def)
next
  case False
  let ?si = "info_of (inodes (files w) i)"
  have st: "wsys e AtStat p (os_Stat p) w = (Inr ?si, w)"
    using False assms(1,2) by (simp add: wsys_quiet os_Stat_def)
  have hc: "has_content (files w) p bs" using assms(2,3) by (simp add: has_content_def)
  show ?thesis
  proof (cases "IsRegular (Mode ?si) \<and> \<not> isShuttingDown (logf (CopyingTo p (p @ ''.balance'')) w)")
    case False
    with assms(6) st have "files w' = files w" "r = None"
      by (auto simp: rebalance_stat_def logf_def split: if_splits)
    with hc show ?thesis by (simp add: content_safe_plain is_critical_simps)
  next
    case True
    with assms(6) st
    have "rebalance_copy c e p ?si old (logf (CopyingTo p (p @ ''.balance'')) w) = Inr (r, w')"
      by (simp add: rebalance_stat_def)
    from copy_safe[OF assms(1) _ _ _ _ this, of i bs] assms(2-5)
    show ?thesis by (simp add: logf_def)
  qed
qed

lemma passes_safe:
  assumes "quiet e" "names (files w) p = Some i" "content (inodes (files w) i) = bs"
    and "names (files w) (p @ ''.balance'') \<noteq> Some i" "i < next_ino (files w)"
    and "rebalance_passes c e p w = Inr (r, w')"
  shows "content_safe e p bs (files w) r (files w')"
proof -
  have hc: "has_content (files w) p bs" using assms(2,3) by (simp add: has_content_def)
  show ?thesis
  proof (cases "fault e AtDbGet p")
    case True
    with assms(6) have "r = Some DbReadError" "w' = w"
      by (simp_all add: rebalance_passes_def GetRebalanceCount_def)
    with hc show ?thesis by (simp add: content_safe_plain is_critical_simps)
  next
    case False
    show ?thesis
    proof (cases "0 < PassesLimit c \<and> PassesLimit c \<le> count_of w p")
      case True
      with assms(6) False have "r = None" "files w' = files w"
        by (auto simp: passes_cases logf_def)
      with hc show ?thesis by (simp add: content_safe_plain is_critical_simps)
    next
      case nr: False
      with assms(6) False have "rebalance_stat c e p (count_of w p) w = Inr (r, w')"
        by (simp add: passes_cases)
      from stat_safe[OF assms(1-5) this] show ?thesis .
    qed
  qed
qed

lemma GetLinkCount_quiet:
  "quiet e \<Longrightarrow> GetLinkCount e p w = (x, w1) \<Longrightarrow> w1 = w"
  by (auto simp: GetLinkCount_def wsys_quiet os_Lstat_def split: if_splits option.splits sum.splits)

lemma content_kept:
  assumes "quiet e" "names (files w) p = Some i" "content (inodes (files w) i) = bs"
    and "names (files w) (p @ ''.balance'') \<noteq> Some i" "i < next_ino (files w)"
    and "RebalanceFile c e p w = Inr (r, w')"
  shows "content_safe e p bs (files w) r (files w')"
proof -
  have hc: "has_content (files w) p bs" using assms(2,3) by (simp add: has_content_def)
  obtain x w1 where gl: "GetLinkCount e p w = (x, w1)" by (cases "GetLinkCount e p w")
  from GetLinkCount_quiet[OF assms(1) gl] have w1: "w1 = w" .
  show ?thesis
  proof (cases "rebalance_passes c e p w = Inr (r, w')")
    case True
    from passes_safe[OF assms(1-5) this] show ?thesis .
  next
    case False
    with assms(6) gl w1 have "\<not> is_critical r \<and> files w' = files w"
      by (auto simp: RebalanceFile_def logf_def is_critical_simps
               split: if_splits sum.splits dest!: file_gone_files)
    with hc show ?thesis by (simp add: content_safe_plain)
  qed
qed

lemma rename_failure_is_critical:
  assumes "wsys e AtRename (p @ ''.balance'') (os_Rename (p @ ''.balance'') p) (logf (RenamingTemp p) w) = (Inl err, w1)"
  shows "rebalance_rename c e p m t old sz w
       = Inr (Some (CriticalRenameFailed (p @ ''.recovered'') err),
              snd (wsys e AtRenameRecovered (p @ ''.balance'')
                     (os_Rename (p @ ''.balance'') (p @ ''.recovered'')) w1))"
  using assms by (simp add: rebalance_rename_def split: prod.splits)


section \<open>What a checksum mismatch leaves behind\<close>

text \<open>
  When others only write into the temporary file, no step up to the verification
  touches the inode of the original or its entry, and no later step returns the
  checksum-mismatch error.
\<close>

lemma only_tampers_cases:
  assumes "only_tampers e t"
  shows "disturb e s q = Quiet \<or> (\<exists>bs. disturb e s q = Tamper t bs)"
proof -
  from assms have "case disturb e s q of Quiet \<Rightarrow> True | Vanish x \<Rightarrow> False | Tamper x bs \<Rightarrow> x = t"
    by (simp add: only_tampers_def)
  then show ?thesis by (cases "disturb e s q") simp_all
qed

lemma interfere_intact:
  assumes "only_tampers e (p @ ''.balance'')" "intact p i n f"
  shows "intact p i n (interfere (disturb e s q) f)
         \<and> names (interfere (disturb e s q) f) = names f"
proof -
  from only_tampers_cases[OF assms(1), of s q]
  show ?thesis
  proof
    assume "disturb e s q = Quiet"
    with assms(2) show ?thesis by simp
  next
    assume "\<exists>bs. disturb e s q = Tamper (p @ ''.balance'') bs"
    then obtain bs where "disturb e s q = Tamper (p @ ''.balance'') bs" ..
    with assms(2) show ?thesis
      by (cases "names f (p @ ''.balance'')") (simp_all add: intact_def)
  qed
qed

lemma sys_intact:
  assumes "only_tampers e (p @ ''.balance'')" "intact p i n f"
    and "\<And>g x g'. intact p i n g \<Longrightarrow> call g = (x, g') \<Longrightarrow> intact p i n g'"
    and "sys e s q call f = (x, f')"
  shows "intact p i n f'"
proof (cases "fault e s q")
  case True
  with assms(4) have "f' = interfere (disturb e s q) f" by (simp add: sys_def)
  with interfere_intact[OF assms(1,2)] show ?thesis by simp
next
  case False
  with assms(4) have "call (interfere (disturb e s q) f) = (x, f')" by (simp add: sys_def)
  moreover from interfere_intact[OF assms(1,2), of s q]
  have "intact p i n (interfere (disturb e s q) f)" by simp
  ultimately show ?thesis by (rule assms(3)[rotated])
qed

lemma wsys_intact:
  assumes "only_tampers e (p @ ''.balance'')" "intact p i n (files w)"
    and "\<And>g x g'. intact p i n g \<Longrightarrow> call g = (x, g') \<Longrightarrow> intact p i n g'"
    and "wsys e s q call w = (x, w')"
  shows "intact p i n (files w')"
proof -
  obtain y f' where sy: "sys e s q call (files w) = (y, f')" by (cases "sys e s q call (files w)")
  with assms(4) have "files w' = f'" by (auto simp: wsys_def)
  with sys_intact[OF assms(1-3) sy] show ?thesis by simp
qed

lemma Stat_id: "os_Stat p f = (x, f') \<Longrightarrow> f' = f"
  by (auto simp: os_Stat_def split: option.splits)

lemma Lstat_id: "os_Lstat p f = (x, f') \<Longrightarrow> f' = f"
  by (auto simp: os_Lstat_def split: option.splits)

lemma Open_id: "os_Open p f = (x, f') \<Longrightarrow> f' = f"
  by (auto simp: os_Open_def split: option.splits)

lemma file_Stat_id: "file_Stat h f = (x, f') \<Longrightarrow> f' = f"
  by (auto simp: file_Stat_def)

lemma file_read_id: "file_read h f = (x, f') \<Longrightarrow> f' = f"
  by (auto simp: file_read_def split: if_splits)

lemma Stat_intact: "intact p i n g \<Longrightarrow> os_Stat q g = (x, g') \<Longrightarrow> intact p i n g'"
  by (drule Stat_id) simp

lemma Lstat_intact: "intact p i n g \<Longrightarrow> os_Lstat q g = (x, g') \<Longrightarrow> intact p i n g'"
  by (drule Lstat_id) simp

lemma Open_intact: "intact p i n g \<Longrightarrow> os_Open q g = (x, g') \<Longrightarrow> intact p i n g'"
  by (drule Open_id) simp

lemma file_Stat_intact: "intact p i n g \<Longrightarrow> file_Stat h g = (x, g') \<Longrightarrow> intact p i n g'"
  by (drule file_Stat_id) simp

lemma file_read_intact: "intact p i n g \<Longrightarrow> file_read h g = (x, g') \<Longrightarrow> intact p i n g'"
  by (drule file_read_id) simp

lemma Remove_tmp_intact:
  "intact p i n f \<Longrightarrow> os_Remove (p @ ''.balance'') f = (x, f') \<Longrightarrow> intact p i n f'"
  by (auto simp: os_Remove_def drop_link_def intact_def split: option.splits)

lemma Chtimes_tmp_intact:
  "intact p i n f \<Longrightarrow> os_Chtimes (p @ ''.balance'') t f = (x, f') \<Longrightarrow> intact p i n f'"
  by (auto simp: os_Chtimes_def intact_def split: option.splits)

lemma Create_tmp_intact:
  "intact p i n f \<Longrightarrow> os_OpenFile_trunc um t (p @ ''.balance'') m f = (x, f') \<Longrightarrow>
   intact p i n f' \<and> (\<forall>d. x = Inr d \<longrightarrow> d \<noteq> i)"
  by (auto simp: os_OpenFile_trunc_def intact_def split: option.splits if_splits)

lemma wsys_create_intact:
  assumes "only_tampers e (p @ ''.balance'')" "intact p i n (files w)"
    and "wsys e AtCopyCreate (p @ ''.balance'') (os_OpenFile_trunc um t (p @ ''.balance'') m) w = (x, w')"
  shows "intact p i n (files w') \<and> (\<forall>d. x = Inr d \<longrightarrow> d \<noteq> i)"
proof (cases "fault e AtCopyCreate (p @ ''.balance'')")
  case True
  with assms(3) have "files w' = interfere (disturb e AtCopyCreate (p @ ''.balance'')) (files w)" "x = Inl OtherErr"
    by (auto simp: wsys_def sys_def)
  with interfere_intact[OF assms(1,2)] show ?thesis by simp
next
  case False
  with assms(3)
  have "os_OpenFile_trunc um t (p @ ''.balance'') m
          (interfere (disturb e AtCopyCreate (p @ ''.balance'')) (files w)) = (x, files w')"
    by (auto simp: wsys_def sys_def split: prod.splits)
  moreover from interfere_intact[OF assms(1,2), of AtCopyCreate "p @ ''.balance''"]
  have "intact p i n (interfere (disturb e AtCopyCreate (p @ ''.balance'')) (files w))" by simp
  ultimately show ?thesis by (rule Create_tmp_intact[rotated])
qed

lemma io_Copy_intact:
  assumes "only_tampers e (p @ ''.balance'')" "intact p i n (files w)" "d \<noteq> i"
    and "io_Copy e p d s w = (x, w')"
  shows "intact p i n (files w')"
proof -
  let ?f1 = "interfere (disturb e AtCopyIo p) (files w)"
  from interfere_intact[OF assms(1,2)] have i1: "intact p i n ?f1" by simp
  have wr: "\<And>bs. intact p i n (file_write d (now e) bs ?f1)"
    using i1 assms(3) by (simp add: file_write_def intact_def)
  from assms(4) have "files w' = ?f1 \<or> (\<exists>bs. files w' = file_write d (now e) bs ?f1)"
    by (auto simp: io_Copy_def file_read_def split: if_splits)
  with i1 wr show ?thesis by auto
qed

lemma CopyFile_intact:
  assumes "only_tampers e (p @ ''.balance'')" "intact p i n (files w)"
    and "CopyFile e p (p @ ''.balance'') w = (x, w')"
  shows "intact p i n (files w')"
proof -
  obtain x1 w1 where s1: "wsys e AtCopyOpen p (os_Open p) w = (x1, w1)"
    by (cases "wsys e AtCopyOpen p (os_Open p) w")
  have i1: "intact p i n (files w1)" by (rule wsys_intact[OF assms(1,2) Open_intact s1])
  show ?thesis
  proof (cases x1)
    case (Inl err)
    with assms(3) s1 have "w' = w1" by (simp add: CopyFile_def)
    with i1 show ?thesis by simp
  next
    case (Inr s)
    obtain x2 w2 where s2: "wsys e AtCopyStat p (file_Stat s) w1 = (x2, w2)"
      by (cases "wsys e AtCopyStat p (file_Stat s) w1")
    have i2: "intact p i n (files w2)" by (rule wsys_intact[OF assms(1) i1 file_Stat_intact s2])
    show ?thesis
    proof (cases x2)
      case (Inl err)
      with assms(3) s1 \<open>x1 = Inr s\<close> s2 have "w' = w2" by (simp add: CopyFile_def)
      with i2 show ?thesis by simp
    next
      case st: (Inr statSrc)
      obtain x3 w3 where s3: "wsys e AtCopyCreate (p @ ''.balance'')
            (os_OpenFile_trunc (umask e) (now e) (p @ ''.balance'') (fi_perm statSrc)) w2 = (x3, w3)"
        by (cases "wsys e AtCopyCreate (p @ ''.balance'')
            (os_OpenFile_trunc (umask e) (now e) (p @ ''.balance'') (fi_perm statSrc)) w2")
      from wsys_create_intact[OF assms(1) i2 s3]
      have i3: "intact p i n (files w3)" and d: "\<forall>d. x3 = Inr d \<longrightarrow> d \<noteq> i" by simp_all
      show ?thesis
      proof (cases x3)
        case (Inl err)
        with assms(3) s1 \<open>x1 = Inr s\<close> s2 st s3 have "w' = w3" by (simp add: CopyFile_def)
        with i3 show ?thesis by simp
      next
        case cr: (Inr d)
        with d have dn: "d \<noteq> i" by simp
        obtain x4 w4 where s4: "io_Copy e p d s w3 = (x4, w4)" by (cases "io_Copy e p d s w3")
        from io_Copy_intact[OF assms(1) i3 dn s4] have i4: "intact p i n (files w4)" .
        show ?thesis
        proof (cases x4)
          case (Inl err)
          with assms(3) s1 \<open>x1 = Inr s\<close> s2 st s3 cr s4 have "w' = w4" by (simp add: CopyFile_def)
          with i4 show ?thesis by simp
        next
          case (Inr u)
          with assms(3) s1 \<open>x1 = Inr s\<close> s2 st s3 cr s4
          have s5: "wsys e AtCopyChtimes (p @ ''.balance'') (os_Chtimes (p @ ''.balance'') (fi_mtime statSrc)) w4 = (x, w')"
            by (simp add: CopyFile_def)
          show ?thesis by (rule wsys_intact[OF assms(1) i4 Chtimes_tmp_intact s5])
        qed
      qed
    qed
  qed
qed

lemma hash_file_intact:
  assumes "only_tampers e (p @ ''.balance'')" "intact p i n (files w)"
    and "hash_file h e q w = (x, w')"
  shows "intact p i n (files w')"
proof -
  obtain x1 w1 where s1: "wsys e AtHashOpen q (os_Open q) w = (x1, w1)"
    by (cases "wsys e AtHashOpen q (os_Open q) w")
  have i1: "intact p i n (files w1)" by (rule wsys_intact[OF assms(1,2) Open_intact s1])
  show ?thesis
  proof (cases x1)
    case (Inl err)
    with assms(3) s1 have "w' = w1" by (simp add: hash_file_def)
    with i1 show ?thesis by simp
  next
    case (Inr fd)
    obtain x2 w2 where s2: "wsys e AtHashRead q (file_read fd) w1 = (x2, w2)"
      by (cases "wsys e AtHashRead q (file_read fd) w1")
    have i2: "intact p i n (files w2)" by (rule wsys_intact[OF assms(1) i1 file_read_intact s2])
    from assms(3) s1 Inr s2 have "w' = w2" by (auto simp: hash_file_def split: sum.splits)
    with i2 show ?thesis by simp
  qed
qed

lemma compare_hashes_intact:
  assumes "\<And>q w x w'. intact p i n (files w) \<Longrightarrow> hashf q w = (x, w') \<Longrightarrow> intact p i n (files w')"
    and "intact p i n (files w)" "compare_hashes hashf a b w = (x, w')"
  shows "intact p i n (files w')"
proof -
  obtain x1 w1 where s1: "hashf a w = (x1, w1)" by (cases "hashf a w")
  from assms(1)[OF assms(2) s1] have i1: "intact p i n (files w1)" .
  show ?thesis
  proof (cases x1)
    case (Inl err)
    with assms(3) s1 have "w' = w1" by (simp add: compare_hashes_def)
    with i1 show ?thesis by simp
  next
    case (Inr h1)
    obtain x2 w2 where s2: "hashf b w1 = (x2, w2)" by (cases "hashf b w1")
    from assms(1)[OF i1 s2] have i2: "intact p i n (files w2)" .
    from assms(3) s1 Inr s2 have "w' = w2" by (auto simp: compare_hashes_def split: sum.splits if_splits)
    with i2 show ?thesis by simp
  qed
qed

lemma Compare_intact:
  assumes "only_tampers e (p @ ''.balance'')" "intact p i n (files w)"
    and "CompareFileChecksum e a b t w = (x, w')"
  shows "intact p i n (files w')"
proof -
  have h: "\<And>h. compare_hashes (hash_file h e) a b w = (x, w') \<Longrightarrow> intact p i n (files w')"
    by (rule compare_hashes_intact[OF hash_file_intact[OF assms(1)] assms(2)])
  from assms(3) show ?thesis
    unfolding CompareFileChecksum_def CompareFileMD5_def CompareFileSHA256_def FileHashMD5_def FileHashSHA256_def
    by (auto split: if_splits dest: h)
qed

lemma InitiateShutdown_files: "InitiateShutdown w = Inr w' \<Longrightarrow> files w' = files w"
  by (auto simp: InitiateShutdown_def Let_def logf_def split: chan.splits)

lemma ledger_not_mismatch:
  "rebalance_ledger c e p old sz w = Inr (r, w') \<Longrightarrow> \<not> is_mismatch r"
  by (auto simp: rebalance_ledger_def is_mismatch_def split: if_splits sum.splits)

lemma times_not_mismatch:
  "rebalance_times c e p t ni old sz w = Inr (r, w') \<Longrightarrow> \<not> is_mismatch r"
  unfolding rebalance_times_def
  by (auto split: if_splits prod.splits sum.splits dest: ledger_not_mismatch simp: is_mismatch_def)

lemma metadata_not_mismatch:
  "rebalance_metadata c e p m t old sz w = Inr (r, w') \<Longrightarrow> \<not> is_mismatch r"
  unfolding rebalance_metadata_def
  by (auto split: if_splits prod.splits sum.splits dest: times_not_mismatch simp: is_mismatch_def)

lemma rename_not_mismatch:
  "rebalance_rename c e p m t old sz w = Inr (r, w') \<Longrightarrow> \<not> is_mismatch r"
  unfolding rebalance_rename_def
  by (auto split: if_splits prod.splits sum.splits dest: metadata_not_mismatch simp: is_mismatch_def)

lemma remove_not_mismatch:
  "rebalance_remove c e p m t old sz w = Inr (r, w') \<Longrightarrow> \<not> is_mismatch r"
  unfolding rebalance_remove_def
  by (auto split: if_splits prod.splits sum.splits dest: rename_not_mismatch file_gone_cases
           simp: is_mismatch_def)

lemma Remove_gone: "os_Remove t f = (x, f') \<Longrightarrow> names f' t = None"
  by (auto simp: os_Remove_def drop_link_def split: option.splits)

lemma Remove_tmp_gone:
  assumes "\<not> fault e AtRemoveTmp t" "wsys e AtRemoveTmp t (os_Remove t) w = (x, w')"
  shows "names (files w') t = None"
proof -
  from assms
  have "os_Remove t (interfere (disturb e AtRemoveTmp t) (files w)) = (x, files w')"
    by (auto simp: wsys_def sys_def split: prod.splits)
  then show ?thesis by (rule Remove_gone)
qed

lemma verify_mismatch:
  assumes "only_tampers e (p @ ''.balance'')" "intact p i n (files w)"
    and "rebalance_verify c e p m t old sz w = Inr (r, w')" "is_mismatch r"
  shows "mismatch_post e p i n w'"
proof -
  let ?t = "if ChecksumType c = [] then ''sha256'' else ChecksumType c"
  obtain ok why w1 where s1: "CompareFileChecksum e p (p @ ''.balance'') ?t w = ((ok, why), w1)"
    by (cases "CompareFileChecksum e p (p @ ''.balance'') ?t w") auto
  have i1: "intact p i n (files w1)" by (rule Compare_intact[OF assms(1,2) s1])
  show ?thesis
  proof (cases ok)
    case True
    with assms(3) s1 have "rebalance_remove c e p m t old sz w1 = Inr (r, w')"
      by (simp add: rebalance_verify_def)
    from remove_not_mismatch[OF this] assms(4) show ?thesis by simp
  next
    case False
    obtain x2 w2 where s2: "wsys e AtRemoveTmp (p @ ''.balance'') (os_Remove (p @ ''.balance'')) w1 = (x2, w2)"
      by (cases "wsys e AtRemoveTmp (p @ ''.balance'') (os_Remove (p @ ''.balance'')) w1")
    have i2: "intact p i n (files w2)" by (rule wsys_intact[OF assms(1) i1 Remove_tmp_intact s2])
    have g: "\<not> fault e AtRemoveTmp (p @ ''.balance'') \<Longrightarrow> names (files w2) (p @ ''.balance'') = None"
      by (rule Remove_tmp_gone[OF _ s2])
    from assms(3) s1 False s2 have "w' = logf (ChecksumMismatchFor p) w2"
      by (simp add: rebalance_verify_def)
    with i2 g show ?thesis by (simp add: mismatch_post_def logf_def)
  qed
qed

lemma copy_mismatch:
  assumes "only_tampers e (p @ ''.balance'')" "intact p i n (files w)"
    and "rebalance_copy c e p si old w = Inr (r, w')" "is_mismatch r"
  shows "mismatch_post e p i n w'"
proof -
  obtain x1 w1 where s1: "CopyFile e p (p @ ''.balance'') w = (x1, w1)"
    by (cases "CopyFile e p (p @ ''.balance'') w")
  have i1: "intact p i n (files w1)" by (rule CopyFile_intact[OF assms(1,2) s1])
  show ?thesis
  proof (cases x1)
    case (Inl err)
    with assms(3) s1 have "r = Some (CopyFailed err)" by (simp add: rebalance_copy_def)
    with assms(4) show ?thesis by (simp add: is_mismatch_def)
  next
    case (Inr u)
    with assms(3) s1
    have "rebalance_verify c e p (Mode si) (fi_mtime si) old (fi_size si) w1 = Inr (r, w')"
      by (simp add: rebalance_copy_def)
    then show ?thesis by (rule verify_mismatch[OF assms(1) i1 _ assms(4)])
  qed
qed

lemma stat_mismatch:
  assumes "only_tampers e (p @ ''.balance'')" "intact p i n (files w)"
    and "rebalance_stat c e p old w = Inr (r, w')" "is_mismatch r"
  shows "mismatch_post e p i n w'"
proof -
  obtain x1 w1 where s1: "wsys e AtStat p (os_Stat p) w = (x1, w1)"
    by (cases "wsys e AtStat p (os_Stat p) w")
  have i1: "intact p i n (files w1)" by (rule wsys_intact[OF assms(1,2) Stat_intact s1])
  show ?thesis
  proof (cases x1)
    case (Inl err)
    with assms(3) s1 have "r = None \<or> r = Some (FailedToStat p err)"
      by (auto simp: rebalance_stat_def split: if_splits dest: file_gone_cases)
    with assms(4) show ?thesis by (auto simp: is_mismatch_def)
  next
    case (Inr si)
    let ?w2 = "logf (CopyingTo p (p @ ''.balance'')) w1"
    have i2: "intact p i n (files ?w2)" using i1 by (simp add: logf_def)
    from assms(3) s1 Inr have "r = None \<or> rebalance_copy c e p si old ?w2 = Inr (r, w')"
      by (auto simp: rebalance_stat_def split: if_splits)
    then show ?thesis
    proof
      assume "r = None"
      with assms(4) show ?thesis by (simp add: is_mismatch_def)
    next
      assume "rebalance_copy c e p si old ?w2 = Inr (r, w')"
      then show ?thesis by (rule copy_mismatch[OF assms(1) i2 _ assms(4)])
    qed
  qed
qed

lemma passes_mismatch:
  assumes "only_tampers e (p @ ''.balance'')" "intact p i n (files w)"
    and "rebalance_passes c e p w = Inr (r, w')" "is_mismatch r"
  shows "mismatch_post e p i n w'"
proof -
  from assms(3) have "r = Some DbReadError \<or> r = None \<or> (\<exists>old. rebalance_stat c e p old w = Inr (r, w'))"
    by (auto simp: rebalance_passes_def split: sum.splits if_splits)
  with assms(4) obtain old where "rebalance_stat c e p old w = Inr (r, w')"
    by (auto simp: is_mismatch_def)
  then show ?thesis by (rule stat_mismatch[OF assms(1,2) _ assms(4)])
qed

lemma GetLinkCount_intact:
  assumes "only_tampers e (p @ ''.balance'')" "intact p i n (files w)"
    and "GetLinkCount e p w = (x, w')"
  shows "intact p i n (files w')"
proof -
  obtain x1 w1 where s1: "wsys e AtLstat p (os_Lstat p) w = (x1, w1)"
    by (cases "wsys e AtLstat p (os_Lstat p) w")
  have i1: "intact p i n (files w1)" by (rule wsys_intact[OF assms(1,2) Lstat_intact s1])
  from assms(3) s1 have "w' = w1"
    by (auto simp: GetLinkCount_def split: sum.splits)
  with i1 show ?thesis by simp
qed

lemma RebalanceFile_mismatch:
  assumes "only_tampers e (p @ ''.balance'')" "intact p i n (files w)"
    and "RebalanceFile c e p w = Inr (r, w')" "is_mismatch r"
  shows "mismatch_post e p i n w'"
proof -
  obtain x1 w1 where s1: "GetLinkCount e p w = (x1, w1)" by (cases "GetLinkCount e p w")
  have i1: "intact p i n (files w1)" by (rule GetLinkCount_intact[OF assms(1,2) s1])
  from assms(3) s1
  have "r = None \<or> (\<exists>err. r = Some (HardlinkCheckFailed p err))
        \<or> rebalance_passes c e p w = Inr (r, w') \<or> rebalance_passes c e p w1 = Inr (r, w')"
    by (auto simp: RebalanceFile_def split: if_splits sum.splits dest: file_gone_cases)
  with assms(4)
  have "rebalance_passes c e p w = Inr (r, w') \<or> rebalance_passes c e p w1 = Inr (r, w')"
    by (auto simp: is_mismatch_def)
  then show ?thesis
  proof
    assume "rebalance_passes c e p w = Inr (r, w')"
    then show ?thesis by (rule passes_mismatch[OF assms(1,2) _ assms(4)])
  next
    assume "rebalance_passes c e p w1 = Inr (r, w')"
    then show ?thesis by (rule passes_mismatch[OF assms(1) i1 _ assms(4)])
  qed
qed

lemma top_effect_error: "top_effect c p w (Some err) w' \<Longrightarrow> db w' = db w"
  by (auto simp: top_effect_def split: if_splits)

lemma verify_on_mismatch:
  assumes "CompareFileChecksum e p (p @ ''.balance'')
             (if ChecksumType c = [] then ''sha256'' else ChecksumType c) w = ((False, why), w1)"
  shows "rebalance_verify c e p m t old sz w =
           Inr (Some (ChecksumMismatch (if ChecksumType c = [] then ''sha256'' else ChecksumType c) p why),
                logf (ChecksumMismatchFor p)
                  (snd (wsys e AtRemoveTmp (p @ ''.balance'') (os_Remove (p @ ''.balance'')) w1)))"
  using assms by (simp add: rebalance_verify_def split: prod.splits)

section \<open>Invariants of the worker pool\<close>
















lemma returns_with_Inr [simp]: "returns_with ch (Inr (r, w')) = (shutdownChan w' = ch)"
  by (simp add: returns_with_def)











lemma attempted_append [simp]: "attempted (xs @ ys) = attempted xs + attempted ys"
  by (simp add: attempted_def)

lemma failures_append [simp]: "failures (xs @ ys) = failures xs + failures ys"
  by (simp add: failures_def)



















lemma coordinator_pw [simp]: "pw (coordinator_step st) = pw st"
  by (simp add: coordinator_step_def split: list.splits)

lemma coordinator_length [simp]: "length (workers (coordinator_step st)) = length (workers st)"
  by (simp add: coordinator_step_def split: list.splits)
































section \<open>Steps that do not read the shutdown channel\<close>

lemma with_chan_simps [simp]:
  "with_chan ch (Inl pn) = Inl pn"
  "with_chan ch (Inr (r, w')) = Inr (r, w'\<lparr>shutdownChan := ch\<rparr>)"
  by (simp_all add: with_chan_def)















section \<open>Shutdown is not idempotent\<close>

text \<open>
  C8. The claim: \<^verbatim>\<open>InitiateShutdown\<close> is idempotent, and a second call must not panic or
  close a signal twice. The code closes \<^verbatim>\<open>shutdownChan\<close> with no guard, so on any
  rebalancer the first call closes the channel and the second call panics with Go's
  "close of closed channel".
\<close>

theorem InitiateShutdown_twice_panics:
  "InitiateShutdown (w\<lparr>shutdownChan := Open\<rparr>)
     = Inr (w\<lparr>shutdownChan := Closed, logged := logged w @ [InitiatingShutdown]\<rparr>)
   \<and> InitiateShutdown (w\<lparr>shutdownChan := Closed, logged := logged w @ [InitiatingShutdown]\<rparr>)
     = Inl CloseOfClosedChannel"
  by (simp add: InitiateShutdown_def logf_def)

section \<open>The ledger counts completed passes\<close>

text \<open>
  C6, as amended. The claim: every successful non-skipped call increases the count of its
  path by exactly 1, regardless of the configured pass limit; the count never decreases;
  failed attempts never change it. The code writes the ledger only under a positive pass
  limit (line 219). What holds: a call changes no other path's count and never lowers
  the count of its own; if it logged the success message it returned \<^verbatim>\<open>nil\<close> and, under
  a positive limit, the count is the old one plus 1 (1 for a path without a row), while
  under a limit of 0 or less the ledger is untouched; if it did not, and in particular if
  it returned an error, the ledger is untouched. The limit and the stored count are Go
  \<^verbatim>\<open>int\<close>s.
\<close>

theorem ledger_counts_successful_passes:
  assumes "RebalanceFile c e p w = Inr (r, w')"
    and "PassesLimit c < 2 ^ 63" and "- (2 ^ 63) \<le> count_of w p"
  shows "(\<forall>q. q \<noteq> p \<longrightarrow> db w' q = db w q)
       \<and> count_of w p \<le> count_of w' p
       \<and> (rebalanced p (new_events w w') \<longrightarrow>
            r = None \<and> (if PassesLimit c > 0 then db w' p = Some (count_of w p + 1) else db w' = db w))
       \<and> (\<not> rebalanced p (new_events w w') \<longrightarrow> db w' = db w)
       \<and> (r \<noteq> None \<longrightarrow> db w' = db w)"
proof -
  from top_effect_RebalanceFile[OF assms(1)] obtain evs where a: "logged w' = logged w @ evs"
    and b: "if rebalanced p evs
         then r = None \<and>
              (if PassesLimit c > 0
               then count_of w p < PassesLimit c \<and> db w' = (db w)(p := Some (int64 (count_of w p + 1)))
               else db w' = db w)
         else db w' = db w"
    unfolding top_effect_def by blast
  have ne: "new_events w w' = evs" using a by (simp add: new_events_def)
  show ?thesis
  proof (cases "rebalanced p evs \<and> PassesLimit c > 0")
    case False
    with b have "db w' = db w" by (auto split: if_splits)
    moreover from b have "rebalanced p evs \<longrightarrow> r = None" by (simp split: if_splits)
    moreover from b have "r \<noteq> None \<longrightarrow> db w' = db w" by (auto split: if_splits)
    ultimately show ?thesis using False by (simp add: ne count_of_def)
  next
    case True
    with b have r: "r = None" and lt: "count_of w p < PassesLimit c"
      and d: "db w' = (db w)(p := Some (int64 (count_of w p + 1)))" by simp_all
    have "int64 (count_of w p + 1) = count_of w p + 1"
      using assms(2,3) lt by (intro int64_id) simp_all
    with d have d': "db w' = (db w)(p := Some (count_of w p + 1))" by simp
    then have "count_of w' p = count_of w p + 1" by (simp add: count_of_def)
    then show ?thesis using True r d' by (simp add: ne)
  qed
qed


text \<open>
  C6, the claim as stated fails: with \<^verbatim>\<open>PassesLimit = 0\<close> a call on a regular file goes
  through the whole protocol, logs the success message and returns \<^verbatim>\<open>nil\<close>, and the
  ledger still has no row for the path.
\<close>

theorem unlimited_passes_write_no_count:
  "returned (RebalanceFile (config2\<lparr>PassesLimit := 0\<rparr>) calm ''a'' (fresh tree_a)) = Some None
   \<and> rebalanced ''a'' (new_events (fresh tree_a)
        (final_world (fresh tree_a) (RebalanceFile (config2\<lparr>PassesLimit := 0\<rparr>) calm ''a'' (fresh tree_a))))
   \<and> db (final_world (fresh tree_a) (RebalanceFile (config2\<lparr>PassesLimit := 0\<rparr>) calm ''a'' (fresh tree_a))) ''a'' = None"
  by (simp add: rebalance_defs os_defs input_defs returned_def final_world_def new_events_def rebalanced_def)


text \<open>The hypotheses of the C6 theorem hold for a first pass over the file \<open>a\<close>.\<close>

theorem ledger_counts_successful_passes_witness:
  "RebalanceFile config2 calm ''a'' (fresh tree_a)
     = Inr (None, final_world (fresh tree_a) (RebalanceFile config2 calm ''a'' (fresh tree_a)))
   \<and> PassesLimit config2 < 2 ^ 63 \<and> - (2 ^ 63) \<le> count_of (fresh tree_a) ''a''
   \<and> rebalanced ''a'' (new_events (fresh tree_a) (final_world (fresh tree_a) (RebalanceFile config2 calm ''a'' (fresh tree_a))))
   \<and> db (final_world (fresh tree_a) (RebalanceFile config2 calm ''a'' (fresh tree_a))) ''a''
       = Some (count_of (fresh tree_a) ''a'' + 1)
   \<and> count_of (fresh tree_a) ''a'' + 1 = 1"
proof -
  have run: "RebalanceFile config2 calm ''a'' (fresh tree_a)
     = Inr (None, final_world (fresh tree_a) (RebalanceFile config2 calm ''a'' (fresh tree_a)))"
    by (simp add: rebalance_defs os_defs input_defs final_world_def)
  have lim: "PassesLimit config2 < 2 ^ 63" by (simp add: config2_def)
  have low: "- (2 ^ 63) \<le> count_of (fresh tree_a) ''a''" by (simp add: count_of_def fresh_def)
  have ev: "rebalanced ''a'' (new_events (fresh tree_a) (final_world (fresh tree_a) (RebalanceFile config2 calm ''a'' (fresh tree_a))))"
    by (simp add: rebalance_defs os_defs input_defs final_world_def new_events_def rebalanced_def)
  have pos: "PassesLimit config2 > 0" by (simp add: config2_def)
  from ledger_counts_successful_passes[OF run lim low] ev pos
  have "db (final_world (fresh tree_a) (RebalanceFile config2 calm ''a'' (fresh tree_a))) ''a''
       = Some (count_of (fresh tree_a) ''a'' + 1)" by simp
  moreover have "count_of (fresh tree_a) ''a'' + 1 = 1" by (simp add: count_of_def fresh_def)
  ultimately show ?thesis using run lim low ev by blast
qed

section \<open>A reached pass limit\<close>

text \<open>
  C5, as amended. The claim: whenever the ledger's count for the path is at least the
  pass limit \<open>L > 0\<close>, \<^verbatim>\<open>RebalanceFile\<close> returns \<^verbatim>\<open>nil\<close> and neither the ledger nor
  the file is touched. The hard-link check of lines 62-80 runs before the ledger is read,
  so its failure is returned first. What holds: if the ledger read gives a count of at
  least \<open>L > 0\<close> (and nobody else touches the tree during the link-count lookup), the call
  returns with the tree and the ledger as they were; it returns \<^verbatim>\<open>nil\<close>, unless hard-link
  skipping is on, the path has no temporary suffix and the link-count lookup fails with
  an error other than "does not exist": then it returns "hardlink check failed". The case
  of a missing file under \<^verbatim>\<open>HaltOnFileMissing\<close> after a shutdown request is left out.
\<close>

theorem pass_limit_reached_is_a_noop:
  assumes "0 < PassesLimit c"
    and "GetRebalanceCount e w p = Inr n" and "PassesLimit c \<le> n"
    and "disturb e AtLstat p = Quiet"
    and "\<not> (HaltOnFileMissing c \<and> names (files w) p = None \<and> shutdownChan w = Closed)"
  shows "\<exists>r w'. RebalanceFile c e p w = Inr (r, w') \<and> files w' = files w \<and> db w' = db w
          \<and> (if SkipHardlinks c \<and> fault e AtLstat p \<and> \<not> HasSuffix p ''.balance''
              then r = Some (HardlinkCheckFailed p (LstatFailed OtherErr))
              else r = None)"
proof (cases "HasSuffix p ''.balance''")
  case True
  then show ?thesis by (simp add: RebalanceFile_def logf_def)
next
  case ns: False
  have reached: "rebalance_passes c e p w = Inr (None, logf (PassCountReached (PassesLimit c) p) w)"
    using assms(1-3) by (rule passes_reached)
  show ?thesis
  proof (cases "SkipHardlinks c")
    case False
    with ns reached show ?thesis by (simp add: RebalanceFile_def logf_def)
  next
    case sk: True
    show ?thesis
    proof (cases "fault e AtLstat p")
      case True
      with ns sk assms(4) show ?thesis by (simp add: RebalanceFile_def GetLinkCount_fault)
    next
      case nf: False
      show ?thesis
      proof (cases "names (files w) p")
        case None
        with assms(5) have "\<not> (HaltOnFileMissing c \<and> shutdownChan w = Closed)" by simp
        from file_gone_returns[OF this, of "FileNoLongerOnDisk p"] obtain w'
          where "file_gone c (FileNoLongerOnDisk p) w = Inr (None, w')" "files w' = files w" "db w' = db w"
          by blast
        with ns sk nf None assms(4) show ?thesis
          by (simp add: RebalanceFile_def GetLinkCount_absent)
      next
        case (Some i)
        with ns sk nf assms(4) reached show ?thesis
          by (simp add: RebalanceFile_def GetLinkCount_present logf_def)
      qed
    qed
  qed
qed

text \<open>
  C5, the claim as stated fails: the ledger holds 2 for \<open>a\<close>, the limit is 2, hard-link
  skipping is on and \<^verbatim>\<open>os.Lstat\<close> fails; the call returns an error, not \<^verbatim>\<open>nil\<close>.
\<close>

theorem lstat_failure_precedes_pass_limit:
  "GetRebalanceCount (calm\<lparr>fault := (\<lambda>s q. s = AtLstat)\<rparr>) (counted ''a'' 2 (fresh tree_a)) ''a'' = Inr 2
   \<and> PassesLimit config2 = 2
   \<and> returned (RebalanceFile config2 (calm\<lparr>fault := (\<lambda>s q. s = AtLstat)\<rparr>) ''a''
                 (counted ''a'' 2 (fresh tree_a)))
       = Some (Some (HardlinkCheckFailed ''a'' (LstatFailed OtherErr)))"
  by (simp add: rebalance_defs os_defs input_defs returned_def)

text \<open>The hypotheses of the C5 theorem hold for \<open>a\<close> with a count of 2 and a limit of 2.\<close>

theorem pass_limit_reached_is_a_noop_witness:
  "0 < PassesLimit config2
   \<and> GetRebalanceCount calm (counted ''a'' 2 (fresh tree_a)) ''a'' = Inr 2
   \<and> PassesLimit config2 \<le> 2
   \<and> disturb calm AtLstat ''a'' = Quiet
   \<and> \<not> (HaltOnFileMissing config2 \<and> names (files (counted ''a'' 2 (fresh tree_a))) ''a'' = None
          \<and> shutdownChan (counted ''a'' 2 (fresh tree_a)) = Closed)
   \<and> (\<exists>w'. RebalanceFile config2 calm ''a'' (counted ''a'' 2 (fresh tree_a)) = Inr (None, w')
          \<and> files w' = files (counted ''a'' 2 (fresh tree_a)) \<and> db w' = db (counted ''a'' 2 (fresh tree_a)))"
proof -
  have h1: "0 < PassesLimit config2" by (simp add: config2_def)
  have h2: "GetRebalanceCount calm (counted ''a'' 2 (fresh tree_a)) ''a'' = Inr 2"
    by (simp add: GetRebalanceCount_def calm_def counted_def fresh_def)
  have h3: "PassesLimit config2 \<le> 2" by (simp add: config2_def)
  have h4: "disturb calm AtLstat ''a'' = Quiet" by (simp add: calm_def)
  have h5: "\<not> (HaltOnFileMissing config2 \<and> names (files (counted ''a'' 2 (fresh tree_a))) ''a'' = None
          \<and> shutdownChan (counted ''a'' 2 (fresh tree_a)) = Closed)"
    by (simp add: config2_def)
  have nf: "\<not> fault calm AtLstat ''a''" by (simp add: calm_def)
  from pass_limit_reached_is_a_noop[OF h1 h2 h3 h4 h5] nf
  have "\<exists>w'. RebalanceFile config2 calm ''a'' (counted ''a'' 2 (fresh tree_a)) = Inr (None, w')
          \<and> files w' = files (counted ''a'' 2 (fresh tree_a)) \<and> db w' = db (counted ''a'' 2 (fresh tree_a))"
    by auto
  with h1 h2 h3 h4 h5 show ?thesis by blast
qed

section \<open>The content of a rebalanced file\<close>

text \<open>
  C1. The claim: for every regular file the bytes at its path are the same before and
  after \<^verbatim>\<open>RebalanceFile\<close>, when the call succeeds and when it skips. \<^verbatim>\<open>CopyFile\<close> opens
  the temporary path with \<^verbatim>\<open>O_TRUNC\<close> and without \<^verbatim>\<open>O_EXCL\<close>. When \<open>a.balance\<close> is
  a hard link of \<open>a\<close> and hard links are processed (\<^verbatim>\<open>SkipHardlinks = false\<close>), opening
  the target empties the one inode both names share, nothing is left to copy, both
  digests are those of the empty file, and the call returns \<^verbatim>\<open>nil\<close> with \<open>a\<close> empty.
\<close>

theorem hard_linked_temp_path_loses_content:
  "has_content tree_a_linked ''a'' ''AAAA''
   \<and> returned (RebalanceFile (config2\<lparr>SkipHardlinks := False\<rparr>) calm ''a'' (fresh tree_a_linked)) = Some None
   \<and> has_content (files (final_world (fresh tree_a_linked)
         (RebalanceFile (config2\<lparr>SkipHardlinks := False\<rparr>) calm ''a'' (fresh tree_a_linked)))) ''a'' []"
  by (simp add: rebalance_defs os_defs input_defs returned_def final_world_def has_content_def)

text \<open>
  C2, as amended. The claim: when the rename onto the original path fails, the temporary
  copy is renamed to the recovery path and a critical error naming that path is returned;
  this is the only outcome after which the original path does not hold the content, and
  the content is then in the recovery file. The second rename is best effort: its result
  is not looked at. What holds, for a file whose temporary path is not a hard link of
  itself, when nobody else touches the tree: a failed rename makes the call attempt the
  second rename and return the critical error naming \<open>path.recovered\<close>; after every other
  outcome the path holds the content; after the critical error the path is gone and the
  content is under the recovery path or still under the temporary path: under the
  temporary path if the second rename was refused, under the recovery path if it was not
  and that path was free before the call.
\<close>

theorem critical_rename_keeps_content:
  assumes "quiet e" "names (files w) p = Some i" "content (inodes (files w) i) = bs"
    and "names (files w) (p @ ''.balance'') \<noteq> Some i" "i < next_ino (files w)"
    and "RebalanceFile c e p w = Inr (r, w')"
  shows "(\<forall>m t old sz v err v1.
            wsys e AtRename (p @ ''.balance'') (os_Rename (p @ ''.balance'') p) (logf (RenamingTemp p) v) = (Inl err, v1)
            \<longrightarrow> rebalance_rename c e p m t old sz v
                 = Inr (Some (CriticalRenameFailed (p @ ''.recovered'') err),
                        snd (wsys e AtRenameRecovered (p @ ''.balance'')
                               (os_Rename (p @ ''.balance'') (p @ ''.recovered'')) v1)))
       \<and> (\<not> is_critical r \<longrightarrow> has_content (files w') p bs)
       \<and> (is_critical r \<longrightarrow>
            r = Some (CriticalRenameFailed (p @ ''.recovered'') OtherErr)
            \<and> fault e AtRename (p @ ''.balance'')
            \<and> names (files w') p = None
            \<and> (has_content (files w') (p @ ''.recovered'') bs \<or> has_content (files w') (p @ ''.balance'') bs)
            \<and> (fault e AtRenameRecovered (p @ ''.balance'') \<longrightarrow> has_content (files w') (p @ ''.balance'') bs)
            \<and> (\<not> fault e AtRenameRecovered (p @ ''.balance'') \<and> names (files w) (p @ ''.recovered'') = None
                 \<longrightarrow> has_content (files w') (p @ ''.recovered'') bs))"
proof -
  from content_kept[OF assms] have "content_safe e p bs (files w) r (files w')" .
  then have "(\<not> is_critical r \<longrightarrow> has_content (files w') p bs)
       \<and> (is_critical r \<longrightarrow>
            r = Some (CriticalRenameFailed (p @ ''.recovered'') OtherErr)
            \<and> fault e AtRename (p @ ''.balance'')
            \<and> names (files w') p = None
            \<and> (has_content (files w') (p @ ''.recovered'') bs \<or> has_content (files w') (p @ ''.balance'') bs)
            \<and> (fault e AtRenameRecovered (p @ ''.balance'') \<longrightarrow> has_content (files w') (p @ ''.balance'') bs)
            \<and> (\<not> fault e AtRenameRecovered (p @ ''.balance'') \<and> names (files w) (p @ ''.recovered'') = None
                 \<longrightarrow> has_content (files w') (p @ ''.recovered'') bs))"
    by (simp add: content_safe_def split: if_splits)
  then show ?thesis using rename_failure_is_critical by blast
qed

text \<open>
  C2, the claim as stated fails: both renames fail, the error names \<open>a.recovered\<close>, no
  such file exists, and the content is under \<open>a.balance\<close>.
\<close>

theorem failed_recovery_rename_leaves_content_in_temp:
  "returned (RebalanceFile config2 rename_fails ''a'' (fresh tree_a))
     = Some (Some (CriticalRenameFailed ''a.recovered'' OtherErr))
   \<and> names (files (final_world (fresh tree_a) (RebalanceFile config2 rename_fails ''a'' (fresh tree_a)))) ''a.recovered'' = None
   \<and> names (files (final_world (fresh tree_a) (RebalanceFile config2 rename_fails ''a'' (fresh tree_a)))) ''a'' = None
   \<and> has_content (files (final_world (fresh tree_a) (RebalanceFile config2 rename_fails ''a'' (fresh tree_a))))
        ''a.balance'' ''AAAA''"
  by (simp add: rebalance_defs os_defs input_defs returned_def final_world_def has_content_def)

text \<open>
  The hypotheses of the C2 theorem hold for \<open>a\<close> when only the first rename fails; the
  content is then under \<open>a.recovered\<close>.
\<close>

theorem critical_rename_keeps_content_witness:
  "quiet first_rename_fails \<and> names (files (fresh tree_a)) ''a'' = Some 0
   \<and> content (inodes (files (fresh tree_a)) 0) = ''AAAA''
   \<and> names (files (fresh tree_a)) (''a'' @ ''.balance'') \<noteq> Some 0
   \<and> 0 < next_ino (files (fresh tree_a))
   \<and> RebalanceFile config2 first_rename_fails ''a'' (fresh tree_a)
       = Inr (Some (CriticalRenameFailed ''a.recovered'' OtherErr),
              final_world (fresh tree_a) (RebalanceFile config2 first_rename_fails ''a'' (fresh tree_a)))
   \<and> is_critical (Some (CriticalRenameFailed ''a.recovered'' OtherErr))
   \<and> has_content (files (final_world (fresh tree_a) (RebalanceFile config2 first_rename_fails ''a'' (fresh tree_a))))
        (''a'' @ ''.recovered'') ''AAAA''"
proof -
  have h1: "quiet first_rename_fails" by (simp add: quiet_def first_rename_fails_def calm_def)
  have h2: "names (files (fresh tree_a)) ''a'' = Some 0" by (simp add: fresh_def tree_a_def)
  have h3: "content (inodes (files (fresh tree_a)) 0) = ''AAAA''" by (simp add: fresh_def tree_a_def file_AAAA_def)
  have h4: "names (files (fresh tree_a)) (''a'' @ ''.balance'') \<noteq> Some 0" by (simp add: fresh_def tree_a_def)
  have h5: "0 < next_ino (files (fresh tree_a))" by (simp add: fresh_def tree_a_def)
  have h6: "RebalanceFile config2 first_rename_fails ''a'' (fresh tree_a)
       = Inr (Some (CriticalRenameFailed ''a.recovered'' OtherErr),
              final_world (fresh tree_a) (RebalanceFile config2 first_rename_fails ''a'' (fresh tree_a)))"
    by (simp add: rebalance_defs os_defs input_defs final_world_def)
  have c: "is_critical (Some (CriticalRenameFailed ''a.recovered'' OtherErr))" by (simp add: is_critical_def)
  have nf: "\<not> fault first_rename_fails AtRenameRecovered (''a'' @ ''.balance'')"
    by (simp add: first_rename_fails_def calm_def)
  have nr: "names (files (fresh tree_a)) (''a'' @ ''.recovered'') = None" by (simp add: fresh_def tree_a_def)
  from critical_rename_keeps_content[OF h1 h2 h3 h4 h5 h6] c nf nr
  have "has_content (files (final_world (fresh tree_a) (RebalanceFile config2 first_rename_fails ''a'' (fresh tree_a))))
        (''a'' @ ''.recovered'') ''AAAA''" by blast
  with h1 h2 h3 h4 h5 h6 c show ?thesis by blast
qed

section \<open>A failed verification\<close>

text \<open>
  C3, as amended. The claim: when the digests of the original and of the temporary copy
  differ, \<^verbatim>\<open>RebalanceFile\<close> deletes the temporary file and returns a checksum-mismatch
  error, the original is unchanged, and no temporary file remains. The result of
  \<^verbatim>\<open>os.Remove(tmpFilePath)\<close> at line 150 is not looked at. What holds, for a file whose
  temporary path is not a hard link of itself, when all that others do to the tree is
  to write into the temporary file: whenever the comparison says that the two differ,
  the rest of the function attempts the removal and returns the checksum-mismatch error
  with the reason of the comparison; and whenever the call returns that error, the path
  still names the same inode, the inode is as it was (content, mode, times, link count),
  the ledger is as it was, and the temporary path is gone if the removal was not refused.
\<close>

theorem checksum_mismatch_leaves_original:
  assumes "only_tampers e (p @ ''.balance'')"
    and "names (files w) p = Some i" "names (files w) (p @ ''.balance'') \<noteq> Some i"
    and "i < next_ino (files w)"
    and "RebalanceFile c e p w = Inr (Some (ChecksumMismatch t q why), w')"
  shows "(\<forall>m ti old sz v why1 v1.
            CompareFileChecksum e p (p @ ''.balance'')
               (if ChecksumType c = [] then ''sha256'' else ChecksumType c) v = ((False, why1), v1)
            \<longrightarrow> rebalance_verify c e p m ti old sz v
                 = Inr (Some (ChecksumMismatch (if ChecksumType c = [] then ''sha256'' else ChecksumType c) p why1),
                        logf (ChecksumMismatchFor p)
                          (snd (wsys e AtRemoveTmp (p @ ''.balance'') (os_Remove (p @ ''.balance'')) v1))))
       \<and> names (files w') p = Some i
       \<and> inodes (files w') i = inodes (files w) i
       \<and> db w' = db w
       \<and> (\<not> fault e AtRemoveTmp (p @ ''.balance'') \<longrightarrow> names (files w') (p @ ''.balance'') = None)"
proof -
  have i0: "intact p i (inodes (files w) i) (files w)"
    using assms(2-4) by (simp add: intact_def)
  have m: "is_mismatch (Some (ChecksumMismatch t q why))" by (simp add: is_mismatch_def)
  from RebalanceFile_mismatch[OF assms(1) i0 assms(5) m]
  have "names (files w') p = Some i" "inodes (files w') i = inodes (files w) i"
    "\<not> fault e AtRemoveTmp (p @ ''.balance'') \<longrightarrow> names (files w') (p @ ''.balance'') = None"
    by (simp_all add: mismatch_post_def intact_def)
  moreover from top_effect_RebalanceFile[OF assms(5)] have "db w' = db w"
    by (rule top_effect_error)
  ultimately show ?thesis using verify_on_mismatch by blast
qed

text \<open>
  C3, the claim as stated fails: the copy of \<open>a\<close> is corrupted before it is verified and
  the removal of \<open>a.balance\<close> is refused; the call returns the checksum-mismatch error
  and \<open>a.balance\<close> is still there, with the corrupted bytes.
\<close>

theorem refused_removal_leaves_temp_file:
  "returned (RebalanceFile config2 copy_corrupted_kept ''a'' (fresh tree_a))
     = Some (Some (ChecksumMismatch ''sha256'' ''a'' (DigestMismatch ''AAAA'' ''AAAB'')))
   \<and> has_content (files (final_world (fresh tree_a)
        (RebalanceFile config2 copy_corrupted_kept ''a'' (fresh tree_a)))) ''a.balance'' ''AAAB''"
  by (simp add: rebalance_defs os_defs input_defs returned_def final_world_def has_content_def
        copy_corrupted_def copy_corrupted_kept_def)

text \<open>
  The hypotheses of the C3 theorem hold for \<open>a\<close> when its copy is corrupted before it is
  verified; the removal succeeds, and \<open>a.balance\<close> is gone.
\<close>

theorem checksum_mismatch_leaves_original_witness:
  "only_tampers copy_corrupted (''a'' @ ''.balance'')
   \<and> names (files (fresh tree_a)) ''a'' = Some 0
   \<and> names (files (fresh tree_a)) (''a'' @ ''.balance'') \<noteq> Some 0
   \<and> 0 < next_ino (files (fresh tree_a))
   \<and> RebalanceFile config2 copy_corrupted ''a'' (fresh tree_a)
       = Inr (Some (ChecksumMismatch ''sha256'' ''a'' (DigestMismatch ''AAAA'' ''AAAB'')),
              final_world (fresh tree_a) (RebalanceFile config2 copy_corrupted ''a'' (fresh tree_a)))
   \<and> names (files (final_world (fresh tree_a) (RebalanceFile config2 copy_corrupted ''a'' (fresh tree_a)))) ''a'' = Some 0
   \<and> inodes (files (final_world (fresh tree_a) (RebalanceFile config2 copy_corrupted ''a'' (fresh tree_a)))) 0
       = file_AAAA
   \<and> names (files (final_world (fresh tree_a) (RebalanceFile config2 copy_corrupted ''a'' (fresh tree_a))))
       (''a'' @ ''.balance'') = None"
proof -
  have h1: "only_tampers copy_corrupted (''a'' @ ''.balance'')"
    by (simp add: only_tampers_def copy_corrupted_def calm_def)
  have h2: "names (files (fresh tree_a)) ''a'' = Some 0" by (simp add: fresh_def tree_a_def)
  have h3: "names (files (fresh tree_a)) (''a'' @ ''.balance'') \<noteq> Some 0" by (simp add: fresh_def tree_a_def)
  have h4: "0 < next_ino (files (fresh tree_a))" by (simp add: fresh_def tree_a_def)
  have h5: "RebalanceFile config2 copy_corrupted ''a'' (fresh tree_a)
       = Inr (Some (ChecksumMismatch ''sha256'' ''a'' (DigestMismatch ''AAAA'' ''AAAB'')),
              final_world (fresh tree_a) (RebalanceFile config2 copy_corrupted ''a'' (fresh tree_a)))"
    by (simp add: rebalance_defs os_defs input_defs final_world_def copy_corrupted_def)
  have nf: "\<not> fault copy_corrupted AtRemoveTmp (''a'' @ ''.balance'')"
    by (simp add: copy_corrupted_def calm_def)
  have o: "inodes (files (fresh tree_a)) 0 = file_AAAA" by (simp add: fresh_def tree_a_def)
  from checksum_mismatch_leaves_original[OF h1 h2 h3 h4 h5] nf o
  have "names (files (final_world (fresh tree_a) (RebalanceFile config2 copy_corrupted ''a'' (fresh tree_a)))) ''a'' = Some 0
   \<and> inodes (files (final_world (fresh tree_a) (RebalanceFile config2 copy_corrupted ''a'' (fresh tree_a)))) 0
       = file_AAAA
   \<and> names (files (final_world (fresh tree_a) (RebalanceFile config2 copy_corrupted ''a'' (fresh tree_a))))
       (''a'' @ ''.balance'') = None" by simp
  with h1 h2 h3 h4 h5 show ?thesis by blast
qed

section \<open>What is not an error\<close>




section \<open>Every file is attempted\<close>




section \<open>The number of workers\<close>



section \<open>Where shutdown is observed\<close>




end
